theory Spec2Isabelle
  imports Main
begin

section \<open>Data model\<close>

text \<open>
  The notebook counts, per calendar year, how many (journal, year) pairs of a data set
  fall in that year. A pair is a Python tuple of a string and an integer; a data set is
  a Python list of such pairs.
\<close>

type_synonym journal_year_pair = "string \<times> int"

text \<open>
  A Python \<open>dict\<close> from integer years to integer counts, kept in insertion order (as
  Python keeps it): an association list whose keys are pairwise distinct.
\<close>

type_synonym pydict = "(int \<times> int) list"

datatype error = KeyError int | IndexError | ValueError | TypeError

text \<open>\<open>d[k] = v\<close>: an existing key keeps its position, a new key is appended.\<close>

primrec dict_setitem :: "pydict \<Rightarrow> int \<Rightarrow> int \<Rightarrow> pydict" where
  "dict_setitem [] k v = [(k, v)]"
| "dict_setitem (p # ps) k v = (if fst p = k then (k, v) # ps else p # dict_setitem ps k v)"

text \<open>\<open>d[k]\<close> on a plain \<open>dict\<close>: a missing key raises \<open>KeyError\<close>.\<close>

definition dict_getitem :: "pydict \<Rightarrow> int \<Rightarrow> error + int" where
  "dict_getitem d k = (case map_of d k of None \<Rightarrow> Inl (KeyError k) | Some v \<Rightarrow> Inr v)"

text \<open>
  \<open>d[k]\<close> on \<open>defaultdict(lambda:0)\<close>: a missing key is inserted with the default
  value 0, which is returned; the dictionary after the read is the second component.
\<close>

definition defaultdict_getitem :: "pydict \<Rightarrow> int \<Rightarrow> int \<times> pydict" where
  "defaultdict_getitem d k =
     (case map_of d k of None \<Rightarrow> (0, dict_setitem d k 0) | Some v \<Rightarrow> (v, d))"

text \<open>\<open>d.update(other)\<close>: every item of \<open>other\<close> is stored into \<open>d\<close>, in order.\<close>

definition dict_update :: "pydict \<Rightarrow> pydict \<Rightarrow> pydict" where
  "dict_update d other = fold (\<lambda>(k, v) acc. dict_setitem acc k v) other d"

definition dict_values :: "pydict \<Rightarrow> int list" where
  "dict_values d = map snd d"

definition dict_keys :: "pydict \<Rightarrow> int list" where
  "dict_keys d = map fst d"

text \<open>\<open>range(a, b)\<close>: the integers from \<open>a\<close> up to, and excluding, \<open>b\<close>.\<close>

definition py_range :: "int \<Rightarrow> int \<Rightarrow> int list" where
  "py_range a b = [a..b - 1]"

text \<open>\<open>xs.count(y)\<close> on a list of integers.\<close>

primrec list_count :: "int list \<Rightarrow> int \<Rightarrow> int" where
  "list_count [] y = 0"
| "list_count (x # xs) y = (if x = y then 1 else 0) + list_count xs y"

section \<open>The counting cores of the four aggregators\<close>

text \<open>
  Each \<open>generateDict...\<close> function of the notebook generates its data and then counts.
  The counting part of each is given here as a function of the data set
  \<open>journal_year\<close>; the functions themselves follow in the next section. The wall-clock
  timing and the printed line of each function do not influence the returned
  dictionary and are left out.
\<close>

subsection \<open>generateDictInefficient: nested loops over a defaultdict\<close>

text \<open>
  The body of the inner loop: \<open>if year == int(pair[1]): yearDict[year] += 1\<close>. The
  years are integers already, so \<open>int(...)\<close> returns its argument.
\<close>

definition inefficient_inner :: "int \<Rightarrow> journal_year_pair \<Rightarrow> pydict \<Rightarrow> pydict" where
  "inefficient_inner year pair yearDict =
     (if year = snd pair
      then (let (value, d) = defaultdict_getitem yearDict year in dict_setitem d year (value + 1))
      else yearDict)"

text \<open>
  The body of the outer loop: the bare read \<open>yearDict[year]\<close> that makes the key
  present, then the inner loop over all pairs.
\<close>

definition inefficient_outer :: "journal_year_pair list \<Rightarrow> int \<Rightarrow> pydict \<Rightarrow> pydict" where
  "inefficient_outer journal_year year yearDict =
     (let (_, d) = defaultdict_getitem yearDict year
      in fold (inefficient_inner year) journal_year d)"

definition generateDictInefficient_core :: "journal_year_pair list \<Rightarrow> error + pydict" where
  "generateDictInefficient_core journal_year =
     Inr (fold (inefficient_outer journal_year) (py_range 2000 (2018 + 1)) [])"

subsection \<open>generateDictEfficient1: dictionary comprehension with list.count\<close>

definition generateDictEfficient1_core :: "journal_year_pair list \<Rightarrow> error + pydict" where
  "generateDictEfficient1_core journal_year =
     (let data_years = map snd journal_year;
          all_years = py_range 2000 2019
      in Inr (fold (\<lambda>y d. dict_setitem d y (list_count data_years y)) all_years []))"

subsection \<open>generateDictEfficient2: one pass with the helper getUpdateValue\<close>

text \<open>The comprehension \<open>{y: 0 for y in range(2000, 2018+1)}\<close>.\<close>

definition init_yearDict :: pydict where
  "init_yearDict = fold (\<lambda>y d. dict_setitem d y 0) (py_range 2000 (2018 + 1)) []"

definition getUpdateValue :: "journal_year_pair \<Rightarrow> pydict \<Rightarrow> error + pydict" where
  "getUpdateValue x yearDict =
     (let year = snd x
      in case dict_getitem yearDict year of
           Inl e \<Rightarrow> Inl e
         | Inr value \<Rightarrow> Inr [(year, value + 1)])"

text \<open>One element of the list comprehension: \<open>yearDict.update(getUpdateValue(x, yearDict))\<close>.\<close>

definition efficient2_step :: "journal_year_pair \<Rightarrow> pydict \<Rightarrow> error + pydict" where
  "efficient2_step x yearDict =
     (case getUpdateValue x yearDict of
        Inl e \<Rightarrow> Inl e
      | Inr update_dict \<Rightarrow> Inr (dict_update yearDict update_dict))"

text \<open>The comprehension over all pairs; an exception ends it at once.\<close>

fun efficient2_loop :: "journal_year_pair list \<Rightarrow> pydict \<Rightarrow> error + pydict" where
  "efficient2_loop [] yearDict = Inr yearDict"
| "efficient2_loop (x # xs) yearDict =
     (case efficient2_step x yearDict of
        Inl e \<Rightarrow> Inl e
      | Inr d \<Rightarrow> efficient2_loop xs d)"

definition generateDictEfficient2_core :: "journal_year_pair list \<Rightarrow> error + pydict" where
  "generateDictEfficient2_core journal_year = efficient2_loop journal_year init_yearDict"

subsection \<open>generateDictEfficientFor: one pass with an in-place increment\<close>

text \<open>The loop body \<open>yearDict[jy[1]] += 1\<close>: a read, which may raise, then a write.\<close>

definition efficientFor_step :: "journal_year_pair \<Rightarrow> pydict \<Rightarrow> error + pydict" where
  "efficientFor_step jy yearDict =
     (case dict_getitem yearDict (snd jy) of
        Inl e \<Rightarrow> Inl e
      | Inr value \<Rightarrow> Inr (dict_setitem yearDict (snd jy) (value + 1)))"

fun efficientFor_loop :: "journal_year_pair list \<Rightarrow> pydict \<Rightarrow> error + pydict" where
  "efficientFor_loop [] yearDict = Inr yearDict"
| "efficientFor_loop (jy # rest) yearDict =
     (case efficientFor_step jy yearDict of
        Inl e \<Rightarrow> Inl e
      | Inr d \<Rightarrow> efficientFor_loop rest d)"

definition generateDictEfficientFor_core :: "journal_year_pair list \<Rightarrow> error + pydict" where
  "generateDictEfficientFor_core journal_year = efficientFor_loop journal_year init_yearDict"

section \<open>The data generator\<close>

text \<open>
  The generator draws from two random number generators: Python's \<open>random\<close> for the
  journal names and numpy's \<open>np.random\<close> for the years. The outcome of the draws is
  made explicit: a generator's state is the infinite sequence of the raw numbers it
  will still produce, and a draw below \<open>n\<close> reduces the next raw number modulo \<open>n\<close>.
  Every sequence of indices below \<open>n\<close> is the outcome of some such state, and no
  state gives an index outside that range.
\<close>

type_synonym rng = "nat \<Rightarrow> nat"

record world =
  py_random :: rng
  np_random :: rng

definition randbelow :: "nat \<Rightarrow> rng \<Rightarrow> nat \<times> rng" where
  "randbelow n g = (g 0 mod n, \<lambda>i. g (Suc i))"

text \<open>\<open>random.choice(seq)\<close>: \<open>IndexError\<close> on an empty sequence.\<close>

definition random_choice :: "'a list \<Rightarrow> rng \<Rightarrow> (error + 'a) \<times> rng" where
  "random_choice seq g =
     (if seq = [] then (Inl IndexError, g)
      else (let (i, g') = randbelow (length seq) g in (Inr (seq ! i), g')))"

text \<open>
  \<open>[f() for _ in range(n)]\<close> for a function \<open>f\<close> that draws from a generator: the
  calls run in order, each on the state the previous one left, and an exception
  ends the comprehension.
\<close>

primrec repeat_draws :: "nat \<Rightarrow> (rng \<Rightarrow> (error + 'a) \<times> rng) \<Rightarrow> rng \<Rightarrow> (error + 'a list) \<times> rng" where
  "repeat_draws 0 f g = (Inr [], g)"
| "repeat_draws (Suc k) f g =
     (case f g of
        (Inl e, g') \<Rightarrow> (Inl e, g')
      | (Inr x, g') \<Rightarrow>
          (case repeat_draws k f g' of
             (Inl e, g'') \<Rightarrow> (Inl e, g'')
           | (Inr xs, g'') \<Rightarrow> (Inr (x # xs), g'')))"

text \<open>
  \<open>generateJournalNames(n)\<close>: \<open>n\<close> strings, each the join of 3 draws from
  \<open>'ABCD'\<close>. The claims are about counts \<open>n \<ge> 0\<close>, so \<open>n\<close> is a natural number.
\<close>

definition generateJournalNames :: "nat \<Rightarrow> rng \<Rightarrow> (error + string list) \<times> rng" where
  "generateJournalNames n g = repeat_draws n (repeat_draws 3 (random_choice ''ABCD'')) g"

text \<open>
  \<open>np.random.choice(a, n)\<close>: \<open>n\<close> draws from \<open>a\<close>; \<open>ValueError\<close> when \<open>a\<close> is
  empty and a sample is asked for.
\<close>

definition np_random_choice :: "'a list \<Rightarrow> nat \<Rightarrow> rng \<Rightarrow> (error + 'a list) \<times> rng" where
  "np_random_choice a n g =
     (if a = [] \<and> n \<noteq> 0 then (Inl ValueError, g)
      else repeat_draws n (\<lambda>g. let (i, g') = randbelow (length a) g in (Inr (a ! i), g')) g)"

definition generateYears :: "nat \<Rightarrow> rng \<Rightarrow> (error + int list) \<times> rng" where
  "generateYears n g = np_random_choice (py_range 2000 2018) n g"

text \<open>\<open>generateData(n)\<close>: the names, then the years, zipped.\<close>

definition generateData :: "nat \<Rightarrow> world \<Rightarrow> (error + journal_year_pair list) \<times> world" where
  "generateData n w =
     (case generateJournalNames n (py_random w) of
        (Inl e, g1) \<Rightarrow> (Inl e, w\<lparr>py_random := g1\<rparr>)
      | (Inr journals, g1) \<Rightarrow>
          (case generateYears n (np_random w) of
             (Inl e, g2) \<Rightarrow> (Inl e, w\<lparr>py_random := g1, np_random := g2\<rparr>)
           | (Inr years_list, g2) \<Rightarrow>
               (Inr (zip journals years_list), w\<lparr>py_random := g1, np_random := g2\<rparr>)))"

section \<open>The four aggregators\<close>

text \<open>Each generates \<open>n\<close> pairs and counts them with its core.\<close>

definition aggregate :: "(journal_year_pair list \<Rightarrow> error + pydict) \<Rightarrow> nat \<Rightarrow> world \<Rightarrow> (error + pydict) \<times> world" where
  "aggregate core n w =
     (case generateData n w of
        (Inl e, w') \<Rightarrow> (Inl e, w')
      | (Inr journal_year, w') \<Rightarrow> (core journal_year, w'))"

definition generateDictInefficient :: "nat \<Rightarrow> world \<Rightarrow> (error + pydict) \<times> world" where
  "generateDictInefficient n w = aggregate generateDictInefficient_core n w"

definition generateDictEfficient1 :: "nat \<Rightarrow> world \<Rightarrow> (error + pydict) \<times> world" where
  "generateDictEfficient1 n w = aggregate generateDictEfficient1_core n w"

definition generateDictEfficient2 :: "nat \<Rightarrow> world \<Rightarrow> (error + pydict) \<times> world" where
  "generateDictEfficient2 n w = aggregate generateDictEfficient2_core n w"

definition generateDictEfficientFor :: "nat \<Rightarrow> world \<Rightarrow> (error + pydict) \<times> world" where
  "generateDictEfficientFor n w = aggregate generateDictEfficientFor_core n w"

text \<open>The check of the notebook's tests: \<open>sum(result.values())\<close>.\<close>

definition result_size :: "pydict \<Rightarrow> int" where
  "result_size result = sum_list (dict_values result)"

section \<open>The cores on a store of objects\<close>

text \<open>
  Python lists and dictionaries are objects, which a function may change in place and
  which two names may share. To state what an aggregation does to the list it is given,
  the four counting cores are given a second time, on an explicit store: the list of
  all objects, the address of an object being its position. A new object is appended
  to the store, and no object is ever removed. The objects are the lists of pairs, the
  lists of integers (\<open>data_years\<close>, \<open>all_years\<close>), the list of \<open>None\<close> values that
  the comprehension of \<open>generateDictEfficient2\<close> collects (only its length is kept), and
  the dictionaries.
\<close>

datatype obj =
    PairList "journal_year_pair list"
  | IntList "int list"
  | NoneList nat
  | Dict pydict

type_synonym addr = nat
type_synonym store = "obj list"

text \<open>A new object: its address is the next free position.\<close>

definition alloc :: "obj \<Rightarrow> store \<Rightarrow> addr \<times> store" where
  "alloc ob s = (length s, s @ [ob])"

text \<open>
  Reading the object at an address as a list of pairs, a list of integers or a
  dictionary. The aggregators are given the address of a list of pairs and make the
  other objects themselves; an object of another kind at the address is outside what
  they are written for, and the model answers \<open>TypeError\<close>.
\<close>

definition st_pairs :: "addr \<Rightarrow> store \<Rightarrow> error + journal_year_pair list" where
  "st_pairs a s =
     (if a < length s then (case s ! a of PairList xs \<Rightarrow> Inr xs | _ \<Rightarrow> Inl TypeError)
      else Inl TypeError)"

definition st_ints :: "addr \<Rightarrow> store \<Rightarrow> error + int list" where
  "st_ints a s =
     (if a < length s then (case s ! a of IntList ys \<Rightarrow> Inr ys | _ \<Rightarrow> Inl TypeError)
      else Inl TypeError)"

definition st_dict :: "addr \<Rightarrow> store \<Rightarrow> error + pydict" where
  "st_dict a s =
     (if a < length s then (case s ! a of Dict d \<Rightarrow> Inr d | _ \<Rightarrow> Inl TypeError)
      else Inl TypeError)"

text \<open>
  The operations on a dictionary object: \<open>d[k]\<close>, \<open>d[k] = v\<close>, \<open>d[k]\<close> on a
  defaultdict (which may insert the key), \<open>d.update(other)\<close>. Each changes the
  object at the address of \<open>d\<close> and no other.
\<close>

definition st_getitem :: "addr \<Rightarrow> int \<Rightarrow> store \<Rightarrow> (error + int) \<times> store" where
  "st_getitem d k s =
     (case st_dict d s of Inl e \<Rightarrow> (Inl e, s) | Inr yd \<Rightarrow> (dict_getitem yd k, s))"

definition st_setitem :: "addr \<Rightarrow> int \<Rightarrow> int \<Rightarrow> store \<Rightarrow> (error + unit) \<times> store" where
  "st_setitem d k v s =
     (case st_dict d s of
        Inl e \<Rightarrow> (Inl e, s)
      | Inr yd \<Rightarrow> (Inr (), s[d := Dict (dict_setitem yd k v)]))"

definition st_defaultdict_getitem :: "addr \<Rightarrow> int \<Rightarrow> store \<Rightarrow> (error + int) \<times> store" where
  "st_defaultdict_getitem d k s =
     (case st_dict d s of
        Inl e \<Rightarrow> (Inl e, s)
      | Inr yd \<Rightarrow> (let (v, yd') = defaultdict_getitem yd k in (Inr v, s[d := Dict yd'])))"

definition st_update :: "addr \<Rightarrow> addr \<Rightarrow> store \<Rightarrow> (error + unit) \<times> store" where
  "st_update d other s =
     (case st_dict d s of
        Inl e \<Rightarrow> (Inl e, s)
      | Inr yd \<Rightarrow>
          (case st_dict other s of
             Inl e \<Rightarrow> (Inl e, s)
           | Inr u \<Rightarrow> (Inr (), s[d := Dict (dict_update yd u)])))"

text \<open>The operations on a list object: \<open>l.append(y)\<close> and \<open>l.count(y)\<close>.\<close>

definition st_append :: "addr \<Rightarrow> int \<Rightarrow> store \<Rightarrow> (error + unit) \<times> store" where
  "st_append l y s =
     (case st_ints l s of
        Inl e \<Rightarrow> (Inl e, s)
      | Inr ys \<Rightarrow> (Inr (), s[l := IntList (ys @ [y])]))"

definition st_append_None :: "addr \<Rightarrow> store \<Rightarrow> (error + unit) \<times> store" where
  "st_append_None l s =
     (if l < length s
      then (case s ! l of NoneList k \<Rightarrow> (Inr (), s[l := NoneList (Suc k)]) | _ \<Rightarrow> (Inl TypeError, s))
      else (Inl TypeError, s))"

definition st_count :: "addr \<Rightarrow> int \<Rightarrow> store \<Rightarrow> (error + int) \<times> store" where
  "st_count l y s =
     (case st_ints l s of Inl e \<Rightarrow> (Inl e, s) | Inr ys \<Rightarrow> (Inr (list_count ys y), s))"

text \<open>
  \<open>for x in l: body\<close> for a list object \<open>l\<close>. Python's list iterator keeps an index
  and reads the list again at every step, so a body that changed the list would change
  the iteration, and a body that kept appending to it would never let the loop end: the
  result \<open>None\<close> stands for a loop that does not end. An exception ends the loop.
\<close>

partial_function (option) for_each ::
  "(store \<Rightarrow> error + 'a list) \<Rightarrow> ('a \<Rightarrow> store \<Rightarrow> ((error + unit) \<times> store) option)
     \<Rightarrow> nat \<Rightarrow> store \<Rightarrow> ((error + unit) \<times> store) option" where
  "for_each read body i s =
     (case read s of
        Inl e \<Rightarrow> Some (Inl e, s)
      | Inr xs \<Rightarrow>
          if i < length xs
          then (case body (xs ! i) s of
                  None \<Rightarrow> None
                | Some (Inl e, s') \<Rightarrow> Some (Inl e, s')
                | Some (Inr u, s') \<Rightarrow> for_each read body (Suc i) s')
          else Some (Inr (), s))"

declare for_each.simps [code]

text \<open>\<open>for y in range(...): body\<close>: a range cannot be changed by the body.\<close>

fun for_range ::
  "int list \<Rightarrow> (int \<Rightarrow> store \<Rightarrow> ((error + unit) \<times> store) option)
     \<Rightarrow> store \<Rightarrow> ((error + unit) \<times> store) option" where
  "for_range [] body s = Some (Inr (), s)"
| "for_range (y # ys) body s =
     (case body y s of
        None \<Rightarrow> None
      | Some (Inl e, s') \<Rightarrow> Some (Inl e, s')
      | Some (Inr u, s') \<Rightarrow> for_range ys body s')"

text \<open>Sequencing: an exception, or a loop that does not end, ends the computation.\<close>

definition bind_st ::
  "((error + 'a) \<times> store) option \<Rightarrow> ('a \<Rightarrow> store \<Rightarrow> ((error + 'b) \<times> store) option)
     \<Rightarrow> ((error + 'b) \<times> store) option" where
  "bind_st out f =
     (case out of
        None \<Rightarrow> None
      | Some (Inl e, s) \<Rightarrow> Some (Inl e, s)
      | Some (Inr x, s) \<Rightarrow> f x s)"

text \<open>\<open>return d\<close> after a loop.\<close>

definition returning ::
  "addr \<Rightarrow> ((error + unit) \<times> store) option \<Rightarrow> ((error + addr) \<times> store) option" where
  "returning d out = bind_st out (\<lambda>_ s. Some (Inr d, s))"

text \<open>
  The four cores. In each, the name \<open>journal_year\<close> is the address of the given
  list of pairs.
\<close>

definition inefficient_inner_st ::
  "addr \<Rightarrow> int \<Rightarrow> journal_year_pair \<Rightarrow> store \<Rightarrow> (error + unit) \<times> store" where
  "inefficient_inner_st yearDict year pair s =
     (if year = snd pair
      then (case st_defaultdict_getitem yearDict year s of
              (Inl e, s') \<Rightarrow> (Inl e, s')
            | (Inr value, s') \<Rightarrow> st_setitem yearDict year (value + 1) s')
      else (Inr (), s))"

definition inefficient_outer_st ::
  "addr \<Rightarrow> addr \<Rightarrow> int \<Rightarrow> store \<Rightarrow> ((error + unit) \<times> store) option" where
  "inefficient_outer_st yearDict journal_year year s =
     bind_st (Some (st_defaultdict_getitem yearDict year s))
       (\<lambda>_ s'. for_each (st_pairs journal_year)
                  (\<lambda>pair s. Some (inefficient_inner_st yearDict year pair s)) 0 s')"

definition generateDictInefficient_st :: "addr \<Rightarrow> store \<Rightarrow> ((error + addr) \<times> store) option" where
  "generateDictInefficient_st journal_year s =
     (let (yearDict, s0) = alloc (Dict []) s
      in returning yearDict
           (for_range (py_range 2000 (2018 + 1)) (inefficient_outer_st yearDict journal_year) s0))"

definition generateDictEfficient1_st :: "addr \<Rightarrow> store \<Rightarrow> ((error + addr) \<times> store) option" where
  "generateDictEfficient1_st journal_year s =
     (let (data_years, s0) = alloc (IntList []) s
      in bind_st (for_each (st_pairs journal_year)
                    (\<lambda>pair s. Some (st_append data_years (snd pair) s)) 0 s0)
           (\<lambda>_ s1.
              let (all_years, s2) = alloc (IntList []) s1
              in bind_st (for_range (py_range 2000 2019)
                            (\<lambda>i s. Some (st_append all_years i s)) s2)
                   (\<lambda>_ s3.
                      let (yearDict, s4) = alloc (Dict []) s3
                      in returning yearDict
                           (for_each (st_ints all_years)
                              (\<lambda>y s. bind_st (Some (st_count data_years y s))
                                        (\<lambda>c s'. Some (st_setitem yearDict y c s')))
                              0 s4))))"

definition init_yearDict_st :: "store \<Rightarrow> ((error + addr) \<times> store) option" where
  "init_yearDict_st s =
     (let (yearDict, s0) = alloc (Dict []) s
      in returning yearDict
           (for_range (py_range 2000 (2018 + 1)) (\<lambda>y s. Some (st_setitem yearDict y 0 s)) s0))"

definition getUpdateValue_st ::
  "journal_year_pair \<Rightarrow> addr \<Rightarrow> store \<Rightarrow> (error + addr) \<times> store" where
  "getUpdateValue_st x yearDict s =
     (let year = snd x
      in case st_getitem yearDict year s of
           (Inl e, s') \<Rightarrow> (Inl e, s')
         | (Inr value, s') \<Rightarrow> (let (update_dict, s'') = alloc (Dict [(year, value + 1)]) s'
                                in (Inr update_dict, s'')))"

definition efficient2_step_st ::
  "addr \<Rightarrow> addr \<Rightarrow> journal_year_pair \<Rightarrow> store \<Rightarrow> (error + unit) \<times> store" where
  "efficient2_step_st yearDict results x s =
     (case getUpdateValue_st x yearDict s of
        (Inl e, s1) \<Rightarrow> (Inl e, s1)
      | (Inr update_dict, s1) \<Rightarrow>
          (case st_update yearDict update_dict s1 of
             (Inl e, s2) \<Rightarrow> (Inl e, s2)
           | (Inr _, s2) \<Rightarrow> st_append_None results s2))"

definition generateDictEfficient2_st :: "addr \<Rightarrow> store \<Rightarrow> ((error + addr) \<times> store) option" where
  "generateDictEfficient2_st journal_year s =
     bind_st (init_yearDict_st s)
       (\<lambda>yearDict s0.
          let (results, s1) = alloc (NoneList 0) s0
          in returning yearDict
               (for_each (st_pairs journal_year)
                  (\<lambda>x s. Some (efficient2_step_st yearDict results x s)) 0 s1))"

definition efficientFor_step_st ::
  "addr \<Rightarrow> journal_year_pair \<Rightarrow> store \<Rightarrow> (error + unit) \<times> store" where
  "efficientFor_step_st yearDict jy s =
     (case st_getitem yearDict (snd jy) s of
        (Inl e, s') \<Rightarrow> (Inl e, s')
      | (Inr value, s') \<Rightarrow> st_setitem yearDict (snd jy) (value + 1) s')"

definition generateDictEfficientFor_st :: "addr \<Rightarrow> store \<Rightarrow> ((error + addr) \<times> store) option" where
  "generateDictEfficientFor_st journal_year s =
     bind_st (init_yearDict_st s)
       (\<lambda>yearDict s0.
          returning yearDict
            (for_each (st_pairs journal_year)
               (\<lambda>jy s. Some (efficientFor_step_st yearDict jy s)) 0 s0))"

text \<open>
  A loop over a list, on an abstract state: the steps run in order and an exception
  ends the loop, leaving the state as the failing step left it.
\<close>

fun loop_on ::
  "('a \<Rightarrow> 'st \<Rightarrow> (error + unit) \<times> 'st) \<Rightarrow> 'a list \<Rightarrow> 'st \<Rightarrow> (error + unit) \<times> 'st" where
  "loop_on F [] st = (Inr (), st)"
| "loop_on F (x # xs) st =
     (case F x st of
        (Inl e, st') \<Rightarrow> (Inl e, st')
      | (Inr u, st') \<Rightarrow> loop_on F xs st')"

text \<open>
  The outcome of a call \<open>out\<close> from store \<open>s\<close> agrees with the result \<open>res\<close> of a
  counting core: the call ends; every object of \<open>s\<close> is in the new store, at its
  address and unchanged; an exception of the core is the exception of the call, and a
  table of the core is the content of the dictionary the call returns, whose address
  is not an address of \<open>s\<close>.
\<close>

definition run_ok :: "store \<Rightarrow> error + pydict \<Rightarrow> ((error + addr) \<times> store) option \<Rightarrow> bool" where
  "run_ok s res out \<longleftrightarrow>
     (\<exists>r s'. out = Some (r, s') \<and> take (length s) s' = s
        \<and> (case res of
              Inl e \<Rightarrow> r = Inl e
            | Inr t \<Rightarrow> (\<exists>d. r = Inr d \<and> length s \<le> d \<and> st_dict d s' = Inr t)))"

text \<open>A step of a loop on a dictionary alone, as a step on an abstract state.\<close>

definition step_of ::
  "('a \<Rightarrow> 'st \<Rightarrow> error + 'st) \<Rightarrow> 'a \<Rightarrow> 'st \<Rightarrow> (error + unit) \<times> 'st" where
  "step_of f x st = (case f x st of Inl e \<Rightarrow> (Inl e, st) | Inr st' \<Rightarrow> (Inr (), st'))"

text \<open>
  A step of the comprehension of \<open>generateDictEfficient2\<close> on the objects it touches:
  the dictionary, the number of results collected, and the update dictionaries made.
\<close>

definition efficient2_step_abs ::
  "journal_year_pair \<Rightarrow> pydict \<times> nat \<times> obj list \<Rightarrow> (error + unit) \<times> pydict \<times> nat \<times> obj list" where
  "efficient2_step_abs x st =
     (case st of (yd, k, temps) \<Rightarrow>
        (case getUpdateValue x yd of
           Inl e \<Rightarrow> (Inl e, st)
         | Inr u \<Rightarrow> (Inr (), dict_update yd u, Suc k, temps @ [Dict u])))"

text \<open>
  Two calls of an aggregator on the list at address \<open>a\<close>, the second on the store the
  first one left: both calls end, neither changes an object that existed before it, and
  the list at \<open>a\<close> is the same after each.
\<close>

definition two_calls ::
  "(addr \<Rightarrow> store \<Rightarrow> ((error + addr) \<times> store) option) \<Rightarrow> addr
     \<Rightarrow> journal_year_pair list \<Rightarrow> store
     \<Rightarrow> error + addr \<Rightarrow> store \<Rightarrow> error + addr \<Rightarrow> store \<Rightarrow> bool" where
  "two_calls f a xs s r1 s1 r2 s2 \<longleftrightarrow>
     f a s = Some (r1, s1) \<and> f a s1 = Some (r2, s2)
     \<and> take (length s) s1 = s \<and> take (length s1) s2 = s1
     \<and> st_pairs a s1 = Inr xs \<and> st_pairs a s2 = Inr xs"

text \<open>
  Both calls return a table with content \<open>t\<close>. Each table is a new object: its address
  is not one of the store the call started from, it differs from \<open>a\<close> and from the
  address of the other table, and the second call leaves the first table as it was.
  The table holds no reference to the list: whatever object is put at \<open>a\<close> afterwards,
  the table still has the content \<open>t\<close>; and whatever is put at the address of the
  table, the list at \<open>a\<close> is still the same.
\<close>

definition reaggregation_tables ::
  "(addr \<Rightarrow> store \<Rightarrow> ((error + addr) \<times> store) option) \<Rightarrow> addr
     \<Rightarrow> journal_year_pair list \<Rightarrow> store \<Rightarrow> pydict \<Rightarrow> bool" where
  "reaggregation_tables f a xs s t \<longleftrightarrow>
     (\<exists>s1 s2 d1 d2.
        two_calls f a xs s (Inr d1) s1 (Inr d2) s2
        \<and> length s \<le> d1 \<and> length s1 \<le> d2 \<and> d1 \<noteq> a \<and> d2 \<noteq> a \<and> d1 \<noteq> d2
        \<and> st_dict d1 s1 = Inr t \<and> st_dict d2 s2 = Inr t \<and> st_dict d1 s2 = Inr t
        \<and> (\<forall>ob. st_dict d1 (s1[a := ob]) = Inr t) \<and> (\<forall>ob. st_dict d2 (s2[a := ob]) = Inr t)
        \<and> (\<forall>ob. st_pairs a (s1[d1 := ob]) = Inr xs) \<and> (\<forall>ob. st_pairs a (s2[d2 := ob]) = Inr xs))"

text \<open>Both calls raise the exception \<open>e\<close>.\<close>

definition reaggregation_raises ::
  "(addr \<Rightarrow> store \<Rightarrow> ((error + addr) \<times> store) option) \<Rightarrow> addr
     \<Rightarrow> journal_year_pair list \<Rightarrow> store \<Rightarrow> error \<Rightarrow> bool" where
  "reaggregation_raises f a xs s e \<longleftrightarrow>
     (\<exists>s1 s2. two_calls f a xs s (Inl e) s1 (Inl e) s2)"

section \<open>Vocabulary of the specification\<close>

text \<open>The key range of the aggregators: the years 2000 to 2018, both included.\<close>

definition in_key_range :: "int \<Rightarrow> bool" where
  "in_key_range y \<longleftrightarrow> 2000 \<le> y \<and> y \<le> 2018"

text \<open>The number of records of a data set whose year field equals \<open>y\<close>.\<close>

definition count_year :: "journal_year_pair list \<Rightarrow> int \<Rightarrow> int" where
  "count_year journal_year y = int (length (filter (\<lambda>r. snd r = y) journal_year))"

text \<open>
  The Frequency Table of the specification: one entry per year of the key range,
  holding the number of records of that year.
\<close>

definition frequency_table :: "journal_year_pair list \<Rightarrow> pydict" where
  "frequency_table journal_year = map (\<lambda>y. (y, count_year journal_year y)) [2000..2018]"

text \<open>A table holds, at every year of the key range, the number of records of that year.\<close>

definition counts_every_year :: "journal_year_pair list \<Rightarrow> pydict \<Rightarrow> bool" where
  "counts_every_year journal_year t \<longleftrightarrow>
     (\<forall>Y \<in> {2000..2018}. dict_getitem t Y = Inr (count_year journal_year Y))"

text \<open>
  The invariant of a Frequency Table for a data set: exactly one entry for every year of
  the key range (19 keys), no negative value, the value 0 at a year that no record has,
  and values that sum to the number of records whose year lies in the key range.
\<close>

definition table_invariant :: "journal_year_pair list \<Rightarrow> pydict \<Rightarrow> bool" where
  "table_invariant journal_year t \<longleftrightarrow>
     distinct (dict_keys t) \<and> set (dict_keys t) = {2000..2018} \<and> length (dict_keys t) = 19
     \<and> (\<forall>v \<in> set (dict_values t). 0 \<le> v)
     \<and> (\<forall>Y \<in> set (dict_keys t). count_year journal_year Y = 0 \<longrightarrow> dict_getitem t Y = Inr 0)
     \<and> result_size t = int (length (filter (\<lambda>r. in_key_range (snd r)) journal_year))"

text \<open>The keys of a table other than the given ones.\<close>

definition keys_other_than :: "int list \<Rightarrow> pydict \<Rightarrow> int list" where
  "keys_other_than ks t = filter (\<lambda>k. k \<notin> set ks) (dict_keys t)"

text \<open>The fixed three-record input of the specification's scenario, and its table.\<close>

definition scenario :: "journal_year_pair list" where
  "scenario = [(''AAA'', 2005), (''BBB'', 2005), (''CCC'', 2008)]"

definition scenario_table :: pydict where
  "scenario_table =
     [(2000, 0), (2001, 0), (2002, 0), (2003, 0), (2004, 0), (2005, 2), (2006, 0),
      (2007, 0), (2008, 1), (2009, 0), (2010, 0), (2011, 0), (2012, 0), (2013, 0),
      (2014, 0), (2015, 0), (2016, 0), (2017, 0), (2018, 0)]"

section \<open>Dictionaries as association lists\<close>

lemma setitem_fresh: "k \<notin> fst ` set d \<Longrightarrow> dict_setitem d k v = d @ [(k, v)]"
  by (induction d) auto

lemma setitem_last: "k \<notin> fst ` set d \<Longrightarrow> dict_setitem (d @ [(k, v)]) k v' = d @ [(k, v')]"
  by (induction d) auto

lemma map_of_last: "k \<notin> fst ` set d \<Longrightarrow> map_of (d @ [(k, v)]) k = Some v"
  by (induction d) auto

lemma list_count_years: "list_count (map snd xs) y = count_year xs y"
  by (induction xs) (auto simp: count_year_def)

lemma count_year_Cons:
  "count_year (r # xs) y = (if snd r = y then 1 else 0) + count_year xs y"
  by (simp add: count_year_def)

lemma count_year_Nil: "count_year [] y = 0"
  by (simp add: count_year_def)

lemma comprehension_fold:
  "distinct ys \<Longrightarrow> set ys \<inter> fst ` set acc = {} \<Longrightarrow>
   fold (\<lambda>y d. dict_setitem d y (f y)) ys acc = acc @ map (\<lambda>y. (y, f y)) ys"
proof (induction ys arbitrary: acc)
  case Nil
  then show ?case by simp
next
  case (Cons y ys)
  from Cons.prems have fresh: "y \<notin> fst ` set acc" by auto
  from Cons.prems have "distinct ys" and "set ys \<inter> fst ` set (acc @ [(y, f y)]) = {}"
    by auto
  then have "fold (\<lambda>y d. dict_setitem d y (f y)) ys (acc @ [(y, f y)])
             = (acc @ [(y, f y)]) @ map (\<lambda>y. (y, f y)) ys"
    by (rule Cons.IH)
  with fresh show ?case by (simp add: setitem_fresh)
qed

lemma inner_fold:
  "k \<notin> fst ` set d \<Longrightarrow>
   fold (inefficient_inner k) jy (d @ [(k, v)]) = d @ [(k, v + count_year jy k)]"
proof (induction jy arbitrary: v)
  case Nil
  then show ?case by (simp add: count_year_Nil)
next
  case (Cons r jy)
  have step: "inefficient_inner k r (d @ [(k, v)])
              = d @ [(k, v + (if snd r = k then 1 else 0))]"
  proof (cases "k = snd r")
    case True
    have "defaultdict_getitem (d @ [(k, v)]) k = (v, d @ [(k, v)])"
      unfolding defaultdict_getitem_def map_of_last [OF Cons.prems] by simp
    with True show ?thesis
      using setitem_last [OF Cons.prems] by (simp add: inefficient_inner_def)
  next
    case False
    then show ?thesis by (auto simp: inefficient_inner_def)
  qed
  show ?case
    using Cons.IH [OF Cons.prems] by (simp add: step count_year_Cons add.assoc)
qed

lemma outer_fold:
  "distinct ys \<Longrightarrow> set ys \<inter> fst ` set acc = {} \<Longrightarrow>
   fold (inefficient_outer jy) ys acc = acc @ map (\<lambda>y. (y, count_year jy y)) ys"
proof (induction ys arbitrary: acc)
  case Nil
  then show ?case by simp
next
  case (Cons y ys)
  from Cons.prems have fresh: "y \<notin> fst ` set acc" by auto
  then have none: "map_of acc y = None"
    by (simp add: map_of_eq_None_iff)
  have step: "inefficient_outer jy y acc = acc @ [(y, count_year jy y)]"
    using fresh inner_fold [OF fresh, of jy 0]
    by (simp add: inefficient_outer_def defaultdict_getitem_def none setitem_fresh)
  from Cons.prems have "distinct ys" and "set ys \<inter> fst ` set (acc @ [(y, count_year jy y)]) = {}"
    by auto
  then have "fold (inefficient_outer jy) ys (acc @ [(y, count_year jy y)])
             = (acc @ [(y, count_year jy y)]) @ map (\<lambda>y. (y, count_year jy y)) ys"
    by (rule Cons.IH)
  then show ?case by (simp add: step)
qed

lemma inefficient_core_table: "generateDictInefficient_core xs = Inr (frequency_table xs)"
  using outer_fold [of "[2000..2018]" "[]" xs]
  by (simp add: generateDictInefficient_core_def frequency_table_def py_range_def
        del: upto_rec_numeral)

lemma efficient1_core_table: "generateDictEfficient1_core xs = Inr (frequency_table xs)"
  using comprehension_fold [of "[2000..2018]" "[]" "list_count (map snd xs)"]
  by (simp add: generateDictEfficient1_core_def frequency_table_def py_range_def
        list_count_years del: upto_rec_numeral)

lemma init_yearDict_eq: "init_yearDict = map (\<lambda>y. (y, 0)) [2000..2018]"
  using comprehension_fold [of "[2000..2018]" "[]" "\<lambda>_. 0"]
  by (simp add: init_yearDict_def py_range_def del: upto_rec_numeral)

section \<open>The single-pass loops\<close>

lemma setitem_bump:
  "distinct (map fst d) \<Longrightarrow> map_of d k = Some v \<Longrightarrow>
   dict_setitem d k (v + 1) = map (\<lambda>(k', v'). (k', v' + (if k' = k then 1 else 0))) d"
proof (induction d)
  case Nil
  then show ?case by simp
next
  case (Cons p d)
  show ?case
  proof (cases "fst p = k")
    case True
    with Cons.prems have v: "snd p = v" and notin: "k \<notin> fst ` set d"
      by auto
    from notin have "map (\<lambda>(k', v'). (k', v' + (if k' = k then 1 else 0))) d = d"
      by (induction d) auto
    with True v show ?thesis by (cases p) simp
  next
    case False
    with Cons.prems have "map_of d k = Some v" and "distinct (map fst d)"
      by auto
    with Cons.IH False show ?thesis by (cases p) simp
  qed
qed

lemma efficientFor_step_present:
  assumes "distinct (dict_keys d)" and "map_of d (snd r) = Some v"
  shows "efficientFor_step r d
         = Inr (map (\<lambda>(k', v'). (k', v' + (if k' = snd r then 1 else 0))) d)"
  using assms by (simp add: efficientFor_step_def dict_getitem_def setitem_bump dict_keys_def)

lemma efficientFor_step_absent:
  assumes "snd r \<notin> set (dict_keys d)"
  shows "efficientFor_step r d = Inl (KeyError (snd r))"
proof -
  from assms have "map_of d (snd r) = None"
    by (simp add: map_of_eq_None_iff dict_keys_def)
  then show ?thesis by (simp add: efficientFor_step_def dict_getitem_def)
qed

lemma efficientFor_loop_result:
  "distinct (dict_keys d) \<Longrightarrow>
   efficientFor_loop xs d =
     (case find (\<lambda>r. snd r \<notin> set (dict_keys d)) xs of
        Some r \<Rightarrow> Inl (KeyError (snd r))
      | None \<Rightarrow> Inr (map (\<lambda>(k, v). (k, v + count_year xs k)) d))"
proof (induction xs arbitrary: d)
  case Nil
  then show ?case by (simp add: count_year_Nil)
next
  case (Cons r xs)
  show ?case
  proof (cases "snd r \<in> set (dict_keys d)")
    case False
    then show ?thesis by (simp add: efficientFor_step_absent)
  next
    case True
    then have "map_of d (snd r) \<noteq> None"
      by (simp add: map_of_eq_None_iff dict_keys_def)
    then obtain v where v: "map_of d (snd r) = Some v"
      by blast
    let ?d = "map (\<lambda>(k', v'). (k', v' + (if k' = snd r then 1 else 0))) d"
    have keys: "dict_keys ?d = dict_keys d"
      unfolding dict_keys_def by (induction d) auto
    have dist: "distinct (dict_keys ?d)"
      unfolding keys by (rule Cons.prems)
    have comp: "map (\<lambda>(k, v). (k, v + count_year xs k)) ?d
                = map (\<lambda>(k, v). (k, v + count_year (r # xs) k)) d"
      by (induction d) (auto simp: count_year_Cons)
    have "efficientFor_loop (r # xs) d = efficientFor_loop xs ?d"
      using efficientFor_step_present [OF Cons.prems v] by simp
    also have "\<dots> = (case find (\<lambda>r. snd r \<notin> set (dict_keys ?d)) xs of
                       Some r \<Rightarrow> Inl (KeyError (snd r))
                     | None \<Rightarrow> Inr (map (\<lambda>(k, v). (k, v + count_year xs k)) ?d))"
      by (rule Cons.IH [OF dist])
    finally have "efficientFor_loop (r # xs) d
        = (case find (\<lambda>r. snd r \<notin> set (dict_keys d)) xs of
             Some r \<Rightarrow> Inl (KeyError (snd r))
           | None \<Rightarrow> Inr (map (\<lambda>(k, v). (k, v + count_year (r # xs) k)) d))"
      unfolding keys comp .
    with True show ?thesis by simp
  qed
qed

lemma dict_update_single: "dict_update d [(k, v)] = dict_setitem d k v"
  by (simp add: dict_update_def)

lemma efficient2_step_eq: "efficient2_step x d = efficientFor_step x d"
  by (simp add: efficient2_step_def efficientFor_step_def getUpdateValue_def
        dict_update_single split: sum.splits)

lemma efficient2_loop_eq: "efficient2_loop xs d = efficientFor_loop xs d"
  by (induction xs arbitrary: d) (auto simp: efficient2_step_eq split: sum.splits)

lemma init_yearDict_keys: "dict_keys init_yearDict = [2000..2018]"
proof -
  have "map fst (map (\<lambda>y. (y, 0::int)) ys) = ys" for ys :: "int list"
    by (induction ys) auto
  then show ?thesis
    unfolding init_yearDict_eq dict_keys_def .
qed

lemma efficientFor_core_table:
  "generateDictEfficientFor_core xs =
     (case find (\<lambda>r. \<not> in_key_range (snd r)) xs of
        Some r \<Rightarrow> Inl (KeyError (snd r))
      | None \<Rightarrow> Inr (frequency_table xs))"
proof -
  have dist: "distinct (dict_keys init_yearDict)"
    unfolding init_yearDict_keys by (rule distinct_upto)
  have pred: "(\<lambda>r::journal_year_pair. snd r \<notin> set (dict_keys init_yearDict))
              = (\<lambda>r. \<not> in_key_range (snd r))"
    unfolding init_yearDict_keys in_key_range_def by (auto simp del: upto_rec_numeral)
  have "map (\<lambda>(k, v). (k, v + f k)) (map (\<lambda>y. (y, 0::int)) ys) = map (\<lambda>y. (y, f y)) ys"
    for ys :: "int list" and f :: "int \<Rightarrow> int"
    by (induction ys) auto
  then have tab: "map (\<lambda>(k, v). (k, v + count_year xs k)) init_yearDict = frequency_table xs"
    unfolding init_yearDict_eq frequency_table_def .
  show ?thesis
    unfolding generateDictEfficientFor_core_def efficientFor_loop_result [OF dist] pred tab ..
qed

lemma efficient2_core_table:
  "generateDictEfficient2_core xs =
     (case find (\<lambda>r. \<not> in_key_range (snd r)) xs of
        Some r \<Rightarrow> Inl (KeyError (snd r))
      | None \<Rightarrow> Inr (frequency_table xs))"
  using efficientFor_core_table [of xs]
  by (simp add: generateDictEfficient2_core_def generateDictEfficientFor_core_def
        efficient2_loop_eq)

lemma find_out_of_range_None:
  "find (\<lambda>r. \<not> in_key_range (snd r)) xs = None \<longleftrightarrow> (\<forall>r \<in> set xs. in_key_range (snd r))"
  by (auto simp: find_None_iff)

lemma map_of_frequency_table:
  "map_of (frequency_table xs) y = (if in_key_range y then Some (count_year xs y) else None)"
proof -
  have "map_of (map (\<lambda>k. (k, f k)) ks) y = (if y \<in> set ks then Some (f y) else None)"
    for f :: "int \<Rightarrow> int" and ks
    by (induction ks) auto
  then show ?thesis
    unfolding frequency_table_def in_key_range_def by (simp del: upto_rec_numeral)
qed

lemma keys_frequency_table: "dict_keys (frequency_table xs) = [2000..2018]"
proof -
  have "map fst (map (\<lambda>y. (y, f y)) ys) = ys" for ys :: "int list" and f :: "int \<Rightarrow> int"
    by (induction ys) auto
  then show ?thesis
    unfolding dict_keys_def frequency_table_def .
qed

lemma sum_indicator:
  "distinct ys \<Longrightarrow> sum_list (map (\<lambda>y. if a = y then 1 else 0) ys) = (if a \<in> set ys then 1 else (0::int))"
  by (induction ys) auto

lemma sum_counts:
  "distinct ys \<Longrightarrow>
   sum_list (map (count_year xs) ys) = int (length (filter (\<lambda>r. snd r \<in> set ys) xs))"
proof (induction xs)
  case Nil
  then show ?case by (simp add: count_year_Nil)
next
  case (Cons r xs)
  have "sum_list (map (count_year (r # xs)) ys)
        = sum_list (map (\<lambda>y. if snd r = y then 1 else 0) ys) + sum_list (map (count_year xs) ys)"
    by (induction ys) (simp_all add: count_year_Cons)
  with Cons show ?case by (simp add: sum_indicator)
qed

lemma result_size_frequency_table:
  "result_size (frequency_table xs) = int (length (filter (\<lambda>r. in_key_range (snd r)) xs))"
proof -
  have "map snd (map (\<lambda>y. (y, f y)) ys) = map f ys" for ys :: "int list" and f :: "int \<Rightarrow> int"
    by (induction ys) auto
  then have "result_size (frequency_table xs) = sum_list (map (count_year xs) [2000..2018])"
    unfolding result_size_def dict_values_def frequency_table_def by simp
  also have "\<dots> = int (length (filter (\<lambda>r. snd r \<in> set [2000..2018]) xs))"
    by (rule sum_counts) (rule distinct_upto)
  finally show ?thesis by (simp add: in_key_range_def del: upto_rec_numeral)
qed

section \<open>The generator returns \<open>n\<close> records in range\<close>

lemma repeat_draws_total:
  assumes "\<And>g. \<exists>x g'. f g = (Inr x, g') \<and> P x"
  shows "\<exists>xs g'. repeat_draws n f g = (Inr xs, g') \<and> length xs = n \<and> (\<forall>x \<in> set xs. P x)"
proof (induction n arbitrary: g)
  case 0
  show ?case by simp
next
  case (Suc n)
  from assms obtain x g1 where x: "f g = (Inr x, g1)" "P x"
    by blast
  from Suc.IH obtain xs g2 where xs:
    "repeat_draws n f g1 = (Inr xs, g2)" "length xs = n" "\<forall>x \<in> set xs. P x"
    by blast
  from x xs show ?case by simp
qed

lemma random_choice_letters:
  "\<exists>c g'. random_choice ''ABCD'' g = (Inr c, g') \<and> c \<in> set ''ABCD''"
proof -
  have "g 0 mod 4 < length ''ABCD''" by simp
  then have "''ABCD'' ! (g 0 mod 4) \<in> set ''ABCD''"
    by (rule nth_mem)
  then show ?thesis
    by (simp add: random_choice_def randbelow_def)
qed

lemma journal_name_draw:
  "\<exists>l g'. repeat_draws 3 (random_choice ''ABCD'') g = (Inr l, g')
     \<and> length l = 3 \<and> set l \<subseteq> set ''ABCD''"
  using repeat_draws_total [of "random_choice ''ABCD''" "\<lambda>c. c \<in> set ''ABCD''" 3 g]
    random_choice_letters
  by blast

lemma generateJournalNames_total:
  "\<exists>ls g'. generateJournalNames n g = (Inr ls, g') \<and> length ls = n
     \<and> (\<forall>l \<in> set ls. length l = 3 \<and> set l \<subseteq> set ''ABCD'')"
  unfolding generateJournalNames_def
  using repeat_draws_total [of "repeat_draws 3 (random_choice ''ABCD'')"
      "\<lambda>l. length l = 3 \<and> set l \<subseteq> set ''ABCD''" n g] journal_name_draw
  by blast

lemma generation_range: "py_range 2000 2018 = [2000..2017]"
  by (simp add: py_range_def del: upto_rec_numeral)

lemma year_draw:
  "\<exists>y g'. (let (i, g') = randbelow (length [2000..2017]) g in (Inr ([2000..2017] ! i), g'))
            = (Inr y :: error + int, g') \<and> 2000 \<le> y \<and> y < 2018"
proof -
  have len: "length [2000..2017] = 18"
    by (simp del: upto_rec_numeral)
  have "g 0 mod 18 < length [2000..2017]"
    unfolding len by simp
  then have "[2000..2017] ! (g 0 mod 18) \<in> set [2000..2017]"
    by (rule nth_mem)
  then have "2000 \<le> [2000..2017] ! (g 0 mod 18) \<and> [2000..2017] ! (g 0 mod 18) < 2018"
    by (simp del: upto_rec_numeral)
  then show ?thesis
    unfolding len randbelow_def by simp
qed

lemma generateYears_total:
  "\<exists>ys g'. generateYears n g = (Inr ys, g') \<and> length ys = n
     \<and> (\<forall>y \<in> set ys. 2000 \<le> y \<and> y < 2018)"
proof -
  have ne: "[2000..2017] \<noteq> []"
    by (simp add: upto_rec1)
  show ?thesis
    unfolding generateYears_def np_random_choice_def generation_range
    using repeat_draws_total [of
        "\<lambda>g. let (i, g') = randbelow (length [2000..2017]) g in (Inr ([2000..2017] ! i), g')"
        "\<lambda>y. 2000 \<le> y \<and> y < 2018" n g] year_draw ne
    by simp
qed

lemma generateData_total:
  "\<exists>xs w'. generateData n w = (Inr xs, w') \<and> length xs = n
     \<and> (\<forall>r \<in> set xs. length (fst r) = 3 \<and> set (fst r) \<subseteq> set ''ABCD''
                        \<and> 2000 \<le> snd r \<and> snd r < 2018)"
proof -
  obtain ls g1 where ls: "generateJournalNames n (py_random w) = (Inr ls, g1)"
    "length ls = n" "\<forall>l \<in> set ls. length l = 3 \<and> set l \<subseteq> set ''ABCD''"
    using generateJournalNames_total by blast
  obtain ys g2 where ys: "generateYears n (np_random w) = (Inr ys, g2)"
    "length ys = n" "\<forall>y \<in> set ys. 2000 \<le> y \<and> y < 2018"
    using generateYears_total by blast
  have data: "generateData n w = (Inr (zip ls ys), w\<lparr>py_random := g1, np_random := g2\<rparr>)"
    by (simp add: generateData_def ls(1) ys(1))
  have "\<forall>r \<in> set (zip ls ys). length (fst r) = 3 \<and> set (fst r) \<subseteq> set ''ABCD''
                        \<and> 2000 \<le> snd r \<and> snd r < 2018"
  proof
    fix r assume "r \<in> set (zip ls ys)"
    then have "fst r \<in> set ls" and "snd r \<in> set ys"
      by (metis prod.collapse set_zip_leftD, metis prod.collapse set_zip_rightD)
    with ls(3) ys(3) show "length (fst r) = 3 \<and> set (fst r) \<subseteq> set ''ABCD''
                        \<and> 2000 \<le> snd r \<and> snd r < 2018"
      by blast
  qed
  with data ls(2) ys(2) show ?thesis by simp
qed

section \<open>Results of the four cores\<close>

lemma getitem_frequency_table:
  "in_key_range Y \<Longrightarrow> dict_getitem (frequency_table xs) Y = Inr (count_year xs Y)"
  by (simp add: dict_getitem_def map_of_frequency_table)

lemma counts_every_year_table: "counts_every_year xs (frequency_table xs)"
  by (simp add: counts_every_year_def getitem_frequency_table in_key_range_def)

lemma find_out_of_range_Some:
  "\<not> (\<forall>r \<in> set xs. in_key_range (snd r)) \<Longrightarrow>
   \<exists>r \<in> set xs. \<not> in_key_range (snd r) \<and> find (\<lambda>r. \<not> in_key_range (snd r)) xs = Some r"
proof -
  assume "\<not> (\<forall>r \<in> set xs. in_key_range (snd r))"
  then have "find (\<lambda>r. \<not> in_key_range (snd r)) xs \<noteq> None"
    by (simp add: find_out_of_range_None)
  then obtain r where r: "find (\<lambda>r. \<not> in_key_range (snd r)) xs = Some r"
    by blast
  then have "r \<in> set xs \<and> \<not> in_key_range (snd r)"
    by (auto simp: find_Some_iff)
  with r show ?thesis by blast
qed

lemma single_pass_in_range:
  assumes "\<forall>r \<in> set xs. in_key_range (snd r)"
  shows "generateDictEfficient2_core xs = Inr (frequency_table xs)"
    and "generateDictEfficientFor_core xs = Inr (frequency_table xs)"
  using assms find_out_of_range_None [of xs]
  by (simp_all add: efficient2_core_table efficientFor_core_table)

lemma single_pass_out_of_range:
  assumes "\<not> (\<forall>r \<in> set xs. in_key_range (snd r))"
  shows "\<exists>r \<in> set xs. \<not> in_key_range (snd r)
           \<and> find (\<lambda>r. \<not> in_key_range (snd r)) xs = Some r
           \<and> generateDictEfficient2_core xs = Inl (KeyError (snd r))
           \<and> generateDictEfficientFor_core xs = Inl (KeyError (snd r))"
  using find_out_of_range_Some [OF assms]
  by (auto simp: efficient2_core_table efficientFor_core_table)

lemma count_year_filter_in_range:
  "in_key_range y \<Longrightarrow> count_year (filter (\<lambda>r. in_key_range (snd r)) xs) y = count_year xs y"
proof -
  assume y: "in_key_range y"
  have "filter (\<lambda>r. snd r = y) (filter (\<lambda>r. in_key_range (snd r)) xs) = filter (\<lambda>r. snd r = y) xs"
    using y by (induction xs) auto
  then show ?thesis by (simp add: count_year_def)
qed

lemma frequency_table_filter:
  "frequency_table (filter (\<lambda>r. in_key_range (snd r)) xs) = frequency_table xs"
proof -
  have "\<forall>y \<in> set [2000..2018]. in_key_range y"
    by (simp add: in_key_range_def del: upto_rec_numeral)
  then show ?thesis
    unfolding frequency_table_def by (simp add: count_year_filter_in_range del: upto_rec_numeral)
qed

lemma result_size_less:
  assumes "\<exists>r \<in> set xs. \<not> in_key_range (snd r)"
  shows "result_size (frequency_table xs) < int (length xs)"
proof -
  from assms have "length (filter (\<lambda>r. in_key_range (snd r)) xs) < length xs"
    by (auto intro: length_filter_less)
  then show ?thesis by (simp add: result_size_frequency_table)
qed

lemma result_size_all_in_range:
  assumes "\<forall>r \<in> set xs. in_key_range (snd r)"
  shows "result_size (frequency_table xs) = int (length xs)"
  using assms by (simp add: result_size_frequency_table)

lemma values_frequency_table:
  "dict_values (frequency_table xs) = map (count_year xs) [2000..2018]"
proof -
  have "map snd (map (\<lambda>y. (y, f y)) ys) = map f ys" for ys :: "int list" and f :: "int \<Rightarrow> int"
    by (induction ys) auto
  then show ?thesis
    unfolding dict_values_def frequency_table_def .
qed

lemma key_range_length: "length [2000..2018] = 19"
  by (simp del: upto_rec_numeral)

lemma table_invariant_frequency_table: "table_invariant xs (frequency_table xs)"
proof -
  have "distinct (dict_keys (frequency_table xs))"
    unfolding keys_frequency_table by (rule distinct_upto)
  moreover have "set (dict_keys (frequency_table xs)) = {2000..2018}"
    unfolding keys_frequency_table by (simp del: upto_rec_numeral)
  moreover have "length (dict_keys (frequency_table xs)) = 19"
    unfolding keys_frequency_table by (rule key_range_length)
  moreover have "\<forall>v \<in> set (dict_values (frequency_table xs)). 0 \<le> v"
    unfolding values_frequency_table by (auto simp: count_year_def simp del: upto_rec_numeral)
  moreover have "\<forall>Y \<in> set (dict_keys (frequency_table xs)).
                   count_year xs Y = 0 \<longrightarrow> dict_getitem (frequency_table xs) Y = Inr 0"
    unfolding keys_frequency_table
    by (auto simp: getitem_frequency_table in_key_range_def simp del: upto_rec_numeral)
  ultimately show ?thesis
    unfolding table_invariant_def using result_size_frequency_table [of xs] by blast
qed

lemma frequency_table_years:
  "map snd xs = map snd ys \<Longrightarrow> frequency_table xs = frequency_table ys"
  unfolding frequency_table_def list_count_years [symmetric] by simp

lemma find_years:
  "(case find (\<lambda>r. \<not> in_key_range (snd r)) xs of
      Some r \<Rightarrow> Inl (KeyError (snd r)) | None \<Rightarrow> Inr t)
   = (case find (\<lambda>y. \<not> in_key_range y) (map snd xs) of
      Some y \<Rightarrow> Inl (KeyError y) | None \<Rightarrow> Inr t)"
  by (induction xs) auto

lemma map_of_setitem: "map_of (dict_setitem d k v) = (map_of d)(k \<mapsto> v)"
  by (induction d) (auto simp: fun_eq_iff)

lemma keys_setitem:
  "k \<in> set (dict_keys d) \<Longrightarrow> dict_keys (dict_setitem d k v) = dict_keys d"
  unfolding dict_keys_def by (induction d) auto

lemma others_count:
  assumes "distinct ks" and "k \<in> set ks" and "length ks = 19"
  shows "length (removeAll k ks) = 18"
proof -
  from assms(1) have "removeAll k ks = remove1 k ks"
    by (simp add: distinct_remove1_removeAll)
  with assms(2,3) show ?thesis
    by (simp add: length_remove1)
qed

section \<open>The cores on the store refine the cores on lists\<close>

lemma for_each_refines:
  assumes read: "\<And>st. read (R st) = Inr xs"
    and body: "\<And>x st. body x (R st) = Some (map_prod id R (F x st))"
  shows "for_each read body i (R st) = Some (map_prod id R (loop_on F (drop i xs) st))"
proof (induction "length xs - i" arbitrary: i st)
  case 0
  then have "drop i xs = []" and "\<not> i < length xs"
    by simp_all
  then show ?case
    by (subst for_each.simps) (simp add: read)
next
  case (Suc n)
  then have lt: "i < length xs" and n: "n = length xs - Suc i"
    by simp_all
  from lt have d: "drop i xs = xs ! i # drop (Suc i) xs"
    by (simp add: Cons_nth_drop_Suc)
  obtain r st' where F: "F (xs ! i) st = (r, st')"
    by (cases "F (xs ! i) st")
  show ?case
  proof (cases r)
    case (Inl e)
    with F lt show ?thesis
      by (subst for_each.simps) (simp add: read body d)
  next
    case (Inr u)
    with F lt Suc.hyps(1) [OF n, of st'] show ?thesis
      by (subst for_each.simps) (simp add: read body d)
  qed
qed

lemma for_range_refines:
  assumes body: "\<And>y st. body y (R st) = Some (map_prod id R (F y st))"
  shows "for_range ys body (R st) = Some (map_prod id R (loop_on F ys st))"
proof (induction ys arbitrary: st)
  case Nil
  show ?case by simp
next
  case (Cons y ys)
  obtain r st' where F: "F y st = (r, st')"
    by (cases "F y st")
  with Cons.IH [of st'] show ?case
    by (cases r) (simp_all add: body)
qed

lemma loop_on_total:
  "loop_on (\<lambda>x st. (Inr (), g x st)) xs st = (Inr (), fold g xs st)"
  by (induction xs arbitrary: st) simp_all


lemma st_dict_at: "st_dict (length s) (s @ Dict yd # g) = Inr yd"
  by (simp add: st_dict_def)

lemma st_pairs_append: "st_pairs a s = Inr xs \<Longrightarrow> st_pairs a (s @ g) = Inr xs"
  by (auto simp: st_pairs_def nth_append split: if_splits)

lemma st_setitem_at:
  "st_setitem (length s) k v (s @ Dict yd # g) = (Inr (), s @ Dict (dict_setitem yd k v) # g)"
  by (simp add: st_setitem_def st_dict_at)

lemma st_getitem_at:
  "st_getitem (length s) k (s @ Dict yd # g) = (dict_getitem yd k, s @ Dict yd # g)"
  by (simp add: st_getitem_def st_dict_at)

lemma st_defaultdict_getitem_at:
  "st_defaultdict_getitem (length s) k (s @ Dict yd # g)
   = (Inr (fst (defaultdict_getitem yd k)), s @ Dict (snd (defaultdict_getitem yd k)) # g)"
  by (simp add: st_defaultdict_getitem_def st_dict_at split: prod.splits)

lemma init_yearDict_st_result:
  "init_yearDict_st s = Some (Inr (length s), s @ [Dict init_yearDict])"
proof -
  have "for_range ys (\<lambda>y s'. Some (st_setitem (length s) y 0 s')) (s @ [Dict yd])
        = Some (map_prod id (\<lambda>yd. s @ [Dict yd])
                  (loop_on (\<lambda>y yd. (Inr (), dict_setitem yd y 0)) ys yd))" for ys yd
    by (rule for_range_refines [where R = "\<lambda>yd. s @ [Dict yd]"]) (simp add: st_setitem_at)
  then show ?thesis
    by (simp add: init_yearDict_st_def alloc_def returning_def bind_st_def loop_on_total
          init_yearDict_def)
qed

lemma efficientFor_step_st_at:
  "efficientFor_step_st (length s) jy (s @ [Dict yd])
   = map_prod id (\<lambda>yd. s @ [Dict yd]) (step_of efficientFor_step jy yd)"
  by (simp add: efficientFor_step_st_def st_getitem_at st_setitem_at step_of_def
        efficientFor_step_def split: sum.splits)

lemma loop_on_efficientFor_Inr:
  "efficientFor_loop xs yd = Inr t \<Longrightarrow>
   loop_on (step_of efficientFor_step) xs yd = (Inr (), t)"
  by (induction xs arbitrary: yd) (auto simp: step_of_def split: sum.splits)

lemma loop_on_efficientFor_Inl:
  "efficientFor_loop xs yd = Inl e \<Longrightarrow>
   \<exists>yd'. loop_on (step_of efficientFor_step) xs yd = (Inl e, yd')"
  by (induction xs arbitrary: yd) (auto simp: step_of_def split: sum.splits)

lemma generateDictEfficientFor_st_ok:
  assumes "st_pairs a s = Inr xs"
  shows "run_ok s (generateDictEfficientFor_core xs) (generateDictEfficientFor_st a s)"
proof -
  let ?R = "\<lambda>yd. s @ [Dict yd]"
  have loop: "for_each (st_pairs a) (\<lambda>jy s'. Some (efficientFor_step_st (length s) jy s')) 0
                (?R init_yearDict)
              = Some (map_prod id ?R (loop_on (step_of efficientFor_step) (drop 0 xs) init_yearDict))"
    by (rule for_each_refines [where R = ?R])
       (simp_all add: st_pairs_append [OF assms] efficientFor_step_st_at)
  have run: "generateDictEfficientFor_st a s
             = returning (length s)
                 (Some (map_prod id ?R (loop_on (step_of efficientFor_step) xs init_yearDict)))"
    using loop by (simp add: generateDictEfficientFor_st_def init_yearDict_st_result bind_st_def)
  show ?thesis
  proof (cases "efficientFor_loop xs init_yearDict")
    case (Inl e)
    then obtain yd' where "loop_on (step_of efficientFor_step) xs init_yearDict = (Inl e, yd')"
      using loop_on_efficientFor_Inl by blast
    with Inl show ?thesis
      by (simp add: run run_ok_def returning_def bind_st_def generateDictEfficientFor_core_def)
  next
    case (Inr t)
    then have "loop_on (step_of efficientFor_step) xs init_yearDict = (Inr (), t)"
      by (rule loop_on_efficientFor_Inr)
    with Inr show ?thesis
      using st_dict_at [of s t "[]"]
      by (simp add: run run_ok_def returning_def bind_st_def generateDictEfficientFor_core_def)
  qed
qed


lemma inefficient_inner_st_at:
  "inefficient_inner_st (length s) year pair (s @ [Dict yd])
   = (Inr (), s @ [Dict (inefficient_inner year pair yd)])"
  by (simp add: inefficient_inner_st_def inefficient_inner_def st_defaultdict_getitem_at
        st_setitem_at split: prod.splits)

lemma inefficient_outer_st_at:
  assumes "st_pairs a s = Inr xs"
  shows "inefficient_outer_st (length s) a year (s @ [Dict yd])
         = Some (Inr (), s @ [Dict (inefficient_outer xs year yd)])"
proof -
  let ?R = "\<lambda>yd. s @ [Dict yd]"
  have "for_each (st_pairs a) (\<lambda>pair s'. Some (inefficient_inner_st (length s) year pair s')) 0
          (?R yd1)
        = Some (map_prod id ?R
                  (loop_on (\<lambda>pair yd. (Inr (), inefficient_inner year pair yd)) (drop 0 xs) yd1))"
    for yd1
    by (rule for_each_refines [where R = ?R])
       (simp_all add: st_pairs_append [OF assms] inefficient_inner_st_at)
  then show ?thesis
    by (simp add: inefficient_outer_st_def inefficient_outer_def st_defaultdict_getitem_at
          bind_st_def loop_on_total split: prod.splits)
qed

lemma generateDictInefficient_st_ok:
  assumes "st_pairs a s = Inr xs"
  shows "run_ok s (generateDictInefficient_core xs) (generateDictInefficient_st a s)"
proof -
  let ?R = "\<lambda>yd. s @ [Dict yd]"
  have "for_range ys (inefficient_outer_st (length s) a) (?R [])
        = Some (map_prod id ?R (loop_on (\<lambda>year yd. (Inr (), inefficient_outer xs year yd)) ys []))"
    for ys
    by (rule for_range_refines [where R = ?R]) (simp add: inefficient_outer_st_at [OF assms])
  then have "generateDictInefficient_st a s
             = Some (Inr (length s),
                 s @ [Dict (fold (inefficient_outer xs) (py_range 2000 (2018 + 1)) [])])"
    by (simp add: generateDictInefficient_st_def alloc_def returning_def bind_st_def
          loop_on_total)
  then show ?thesis
    using st_dict_at [of s _ "[]"]
    by (simp add: run_ok_def generateDictInefficient_core_def)
qed


lemma st_ints_at: "st_ints (length s) (s @ IntList ys # g) = Inr ys"
  by (simp add: st_ints_def)

lemma st_ints_append: "st_ints a s = Inr ys \<Longrightarrow> st_ints a (s @ g) = Inr ys"
  by (auto simp: st_ints_def nth_append split: if_splits)

lemma st_append_at:
  "st_append (length s) y (s @ IntList ys # g) = (Inr (), s @ IntList (ys @ [y]) # g)"
  by (simp add: st_append_def st_ints_at)

lemma fold_append_snd: "fold (\<lambda>pair ys. ys @ [snd pair]) xs acc = acc @ map snd xs"
  by (induction xs arbitrary: acc) simp_all

lemma fold_append_each: "fold (\<lambda>i ys. ys @ [i]) xs acc = acc @ xs"
  by (induction xs arbitrary: acc) simp_all

lemma data_years_comprehension:
  assumes "st_pairs a s = Inr xs"
  shows "for_each (st_pairs a) (\<lambda>pair s'. Some (st_append (length s) (snd pair) s')) 0
           (s @ [IntList []])
         = Some (Inr (), s @ [IntList (map snd xs)])"
proof -
  let ?R = "\<lambda>ys. s @ [IntList ys]"
  have "for_each (st_pairs a) (\<lambda>pair s'. Some (st_append (length s) (snd pair) s')) 0 (?R [])
        = Some (map_prod id ?R (loop_on (\<lambda>pair ys. (Inr (), ys @ [snd pair])) (drop 0 xs) []))"
    by (rule for_each_refines [where R = ?R])
       (simp_all add: st_pairs_append [OF assms] st_append_at)
  then show ?thesis
    by (simp add: loop_on_total fold_append_snd)
qed

lemma all_years_comprehension:
  "for_range ys (\<lambda>i s'. Some (st_append (length s) i s')) (s @ [IntList []])
   = Some (Inr (), s @ [IntList ys])"
proof -
  let ?R = "\<lambda>ys. s @ [IntList ys]"
  have "for_range ys (\<lambda>i s'. Some (st_append (length s) i s')) (?R [])
        = Some (map_prod id ?R (loop_on (\<lambda>i ys. (Inr (), ys @ [i])) ys []))"
    by (rule for_range_refines [where R = ?R]) (simp add: st_append_at)
  then show ?thesis
    by (simp add: loop_on_total fold_append_each)
qed

lemma dict_comprehension:
  assumes ay: "st_ints l s = Inr all_years" and dy: "st_ints m s = Inr data_years"
  shows "for_each (st_ints l)
           (\<lambda>y s'. bind_st (Some (st_count m y s'))
                      (\<lambda>c s''. Some (st_setitem (length s) y c s''))) 0
           (s @ [Dict []])
         = Some (Inr (),
             s @ [Dict (fold (\<lambda>y d. dict_setitem d y (list_count data_years y)) all_years [])])"
proof -
  let ?R = "\<lambda>yd. s @ [Dict yd]"
  have "for_each (st_ints l)
           (\<lambda>y s'. bind_st (Some (st_count m y s'))
                      (\<lambda>c s''. Some (st_setitem (length s) y c s''))) 0 (?R [])
        = Some (map_prod id ?R
                  (loop_on (\<lambda>y yd. (Inr (), dict_setitem yd y (list_count data_years y)))
                     (drop 0 all_years) []))"
    by (rule for_each_refines [where R = ?R])
       (simp_all add: st_ints_append [OF ay] st_ints_append [OF dy] st_count_def bind_st_def
          st_setitem_at)
  then show ?thesis
    by (simp add: loop_on_total)
qed

lemma bind_st_Inr: "bind_st (Some (Inr x, s)) f = f x s"
  by (simp add: bind_st_def)

lemma generateDictEfficient1_st_ok:
  assumes "st_pairs a s = Inr xs"
  shows "run_ok s (generateDictEfficient1_core xs) (generateDictEfficient1_st a s)"
proof -
  define s1 where "s1 = s @ [IntList (map snd xs)]"
  define s3 where "s3 = s1 @ [IntList (py_range 2000 2019)]"
  define t where
    "t = fold (\<lambda>y d. dict_setitem d y (list_count (map snd xs) y)) (py_range 2000 2019) []"
  have dy: "st_ints (length s) s3 = Inr (map snd xs)"
    unfolding s3_def s1_def by (simp add: st_ints_at)
  have ay: "st_ints (length s1) s3 = Inr (py_range 2000 2019)"
    unfolding s3_def using st_ints_at [of s1 _ "[]"] by simp
  have "generateDictEfficient1_st a s = Some (Inr (length s3), s3 @ [Dict t])"
    unfolding generateDictEfficient1_st_def alloc_def Let_def prod.case
      data_years_comprehension [OF assms] bind_st_Inr s1_def [symmetric]
      all_years_comprehension s3_def [symmetric]
      dict_comprehension [OF ay dy] returning_def t_def [symmetric]
    ..
  moreover have "take (length s) (s3 @ [Dict t]) = s"
    unfolding s3_def s1_def by simp
  moreover have "length s \<le> length s3"
    unfolding s3_def s1_def by simp
  moreover have "st_dict (length s3) (s3 @ [Dict t]) = Inr t"
    by (rule st_dict_at)
  moreover have "generateDictEfficient1_core xs = Inr t"
    unfolding generateDictEfficient1_core_def Let_def t_def ..
  ultimately show ?thesis
    unfolding run_ok_def by simp
qed


lemma st_dict_append: "st_dict a s = Inr yd \<Longrightarrow> st_dict a (s @ g) = Inr yd"
  by (auto simp: st_dict_def nth_append split: if_splits)

lemma st_update_new:
  assumes "st_dict d s1 = Inr yd"
  shows "st_update d (length s1) (s1 @ [Dict u])
         = (Inr (), s1[d := Dict (dict_update yd u)] @ [Dict u])"
proof -
  from assms have "d < length s1"
    by (auto simp: st_dict_def split: if_splits)
  then show ?thesis
    using st_dict_append [OF assms, of "[Dict u]"] st_dict_at [of s1 u "[]"]
    by (simp add: st_update_def list_update_append)
qed

lemma st_append_None_at:
  "st_append_None (Suc (length s)) (s @ ob # NoneList k # g) = (Inr (), s @ ob # NoneList (Suc k) # g)"
  by (simp add: st_append_None_def nth_append list_update_append)

lemma efficient2_step_st_at:
  "efficient2_step_st (length s) (Suc (length s)) x (s @ Dict yd # NoneList k # temps)
   = map_prod id (\<lambda>(yd, k, temps). s @ Dict yd # NoneList k # temps)
       (efficient2_step_abs x (yd, k, temps))"
proof (cases "dict_getitem yd (snd x)")
  case (Inl e)
  then show ?thesis
    by (simp add: efficient2_step_st_def getUpdateValue_st_def st_getitem_at
          efficient2_step_abs_def getUpdateValue_def)
next
  case (Inr v)
  let ?s1 = "s @ Dict yd # NoneList k # temps"
  let ?u = "[(snd x, v + 1)]"
  have g: "getUpdateValue_st x (length s) ?s1 = (Inr (length ?s1), ?s1 @ [Dict ?u])"
    using Inr by (simp add: getUpdateValue_st_def st_getitem_at alloc_def)
  have u: "st_update (length s) (length ?s1) (?s1 @ [Dict ?u])
           = (Inr (), ?s1[length s := Dict (dict_update yd ?u)] @ [Dict ?u])"
    by (rule st_update_new) (rule st_dict_at)
  have n: "st_append_None (Suc (length s)) (?s1[length s := Dict (dict_update yd ?u)] @ [Dict ?u])
           = (Inr (), s @ Dict (dict_update yd ?u) # NoneList (Suc k) # temps @ [Dict ?u])"
    using st_append_None_at [of s "Dict (dict_update yd ?u)" k "temps @ [Dict ?u]"]
    by simp
  show ?thesis
    unfolding efficient2_step_st_def g prod.case sum.case u n
    using Inr by (simp add: efficient2_step_abs_def getUpdateValue_def)
qed

lemma loop_on_efficient2_Inr:
  "efficient2_loop xs yd = Inr t \<Longrightarrow>
   \<exists>k' temps'. loop_on efficient2_step_abs xs (yd, k, temps) = (Inr (), t, k', temps')"
  by (induction xs arbitrary: yd k temps)
     (auto simp: efficient2_step_abs_def efficient2_step_def split: sum.splits)

lemma loop_on_efficient2_Inl:
  "efficient2_loop xs yd = Inl e \<Longrightarrow>
   \<exists>st'. loop_on efficient2_step_abs xs (yd, k, temps) = (Inl e, st')"
  by (induction xs arbitrary: yd k temps)
     (auto simp: efficient2_step_abs_def efficient2_step_def split: sum.splits)

lemma generateDictEfficient2_st_ok:
  assumes "st_pairs a s = Inr xs"
  shows "run_ok s (generateDictEfficient2_core xs) (generateDictEfficient2_st a s)"
proof -
  let ?R = "\<lambda>(yd, k, temps). s @ Dict yd # NoneList k # temps"
  let ?out = "loop_on efficient2_step_abs xs (init_yearDict, 0, [])"
  have "for_each (st_pairs a) (\<lambda>x s'. Some (efficient2_step_st (length s) (Suc (length s)) x s')) 0
          (?R (init_yearDict, 0, []))
        = Some (map_prod id ?R (loop_on efficient2_step_abs (drop 0 xs) (init_yearDict, 0, [])))"
  proof (rule for_each_refines [where R = ?R])
    show "st_pairs a (?R st) = Inr xs" for st
      by (cases st) (simp add: st_pairs_append [OF assms])
    show "Some (efficient2_step_st (length s) (Suc (length s)) x (?R st))
          = Some (map_prod id ?R (efficient2_step_abs x st))" for x st
      by (cases st) (simp add: efficient2_step_st_at)
  qed
  then have run: "generateDictEfficient2_st a s = returning (length s) (Some (map_prod id ?R ?out))"
    by (simp add: generateDictEfficient2_st_def init_yearDict_st_result bind_st_def alloc_def)
  show ?thesis
  proof (cases "efficient2_loop xs init_yearDict")
    case (Inl e)
    then obtain st' where "?out = (Inl e, st')"
      using loop_on_efficient2_Inl by blast
    with Inl show ?thesis
      by (cases st')
         (simp add: run run_ok_def returning_def bind_st_def generateDictEfficient2_core_def)
  next
    case (Inr t)
    then obtain k' temps' where "?out = (Inr (), t, k', temps')"
      using loop_on_efficient2_Inr by blast
    with Inr show ?thesis
      using st_dict_at [of s t "NoneList k' # temps'"]
      by (simp add: run run_ok_def returning_def bind_st_def generateDictEfficient2_core_def)
  qed
qed


lemma st_dict_other: "st_dict d s = Inr t \<Longrightarrow> d \<noteq> a \<Longrightarrow> st_dict d (s[a := ob]) = Inr t"
  by (auto simp: st_dict_def split: if_splits)

lemma st_pairs_other: "st_pairs a s = Inr xs \<Longrightarrow> d \<noteq> a \<Longrightarrow> st_pairs a (s[d := ob]) = Inr xs"
  by (auto simp: st_pairs_def split: if_splits)

lemma two_calls_of_run_ok:
  assumes ok: "\<And>s. st_pairs a s = Inr xs \<Longrightarrow> run_ok s res (f a s)"
    and xs: "st_pairs a s = Inr xs"
  shows "\<exists>r1 s1 r2 s2. two_calls f a xs s r1 s1 r2 s2
           \<and> (case res of
                 Inl e \<Rightarrow> r1 = Inl e \<and> r2 = Inl e
               | Inr t \<Rightarrow> (\<exists>d1 d2. r1 = Inr d1 \<and> r2 = Inr d2
                             \<and> length s \<le> d1 \<and> length s1 \<le> d2
                             \<and> st_dict d1 s1 = Inr t \<and> st_dict d2 s2 = Inr t))"
proof -
  from ok [OF xs] obtain r1 s1 where 1: "f a s = Some (r1, s1)" "take (length s) s1 = s"
    "case res of Inl e \<Rightarrow> r1 = Inl e
     | Inr t \<Rightarrow> (\<exists>d. r1 = Inr d \<and> length s \<le> d \<and> st_dict d s1 = Inr t)"
    unfolding run_ok_def by blast
  from 1(2) have "s1 = s @ drop (length s) s1"
    by (metis append_take_drop_id)
  with xs have xs1: "st_pairs a s1 = Inr xs"
    by (metis st_pairs_append)
  from ok [OF xs1] obtain r2 s2 where 2: "f a s1 = Some (r2, s2)" "take (length s1) s2 = s1"
    "case res of Inl e \<Rightarrow> r2 = Inl e
     | Inr t \<Rightarrow> (\<exists>d. r2 = Inr d \<and> length s1 \<le> d \<and> st_dict d s2 = Inr t)"
    unfolding run_ok_def by blast
  from 2(2) have "s2 = s1 @ drop (length s1) s2"
    by (metis append_take_drop_id)
  with xs1 have xs2: "st_pairs a s2 = Inr xs"
    by (metis st_pairs_append)
  have calls: "two_calls f a xs s r1 s1 r2 s2"
    unfolding two_calls_def using 1(1,2) 2(1,2) xs1 xs2 by simp
  have "case res of
          Inl e \<Rightarrow> r1 = Inl e \<and> r2 = Inl e
        | Inr t \<Rightarrow> (\<exists>d1 d2. r1 = Inr d1 \<and> r2 = Inr d2
                      \<and> length s \<le> d1 \<and> length s1 \<le> d2
                      \<and> st_dict d1 s1 = Inr t \<and> st_dict d2 s2 = Inr t)"
    using 1(3) 2(3) by (cases res) auto
  with calls show ?thesis by blast
qed

lemma reaggregation_raises_of_run_ok:
  assumes ok: "\<And>s. st_pairs a s = Inr xs \<Longrightarrow> run_ok s (Inl e) (f a s)"
    and xs: "st_pairs a s = Inr xs"
  shows "reaggregation_raises f a xs s e"
  using two_calls_of_run_ok [of a xs "Inl e" f s, OF ok xs]
  unfolding reaggregation_raises_def by auto

lemma reaggregation_tables_of_run_ok:
  assumes ok: "\<And>s. st_pairs a s = Inr xs \<Longrightarrow> run_ok s (Inr t) (f a s)"
    and xs: "st_pairs a s = Inr xs"
  shows "reaggregation_tables f a xs s t"
proof -
  from two_calls_of_run_ok [of a xs "Inr t" f s, OF ok xs]
  obtain s1 s2 d1 d2 where c: "two_calls f a xs s (Inr d1) s1 (Inr d2) s2"
    and d: "length s \<le> d1" "length s1 \<le> d2" "st_dict d1 s1 = Inr t" "st_dict d2 s2 = Inr t"
    by auto
  from c have t1: "take (length s) s1 = s" and t2: "take (length s1) s2 = s1"
    and xs1: "st_pairs a s1 = Inr xs" and xs2: "st_pairs a s2 = Inr xs"
    unfolding two_calls_def by simp_all
  from xs have a: "a < length s"
    by (auto simp: st_pairs_def split: if_splits)
  from d(3) have lt: "d1 < length s1"
    by (auto simp: st_dict_def split: if_splits)
  from t2 have "s2 = s1 @ drop (length s1) s2"
    by (metis append_take_drop_id)
  with d(3) have keep: "st_dict d1 s2 = Inr t"
    by (metis st_dict_append)
  from a d(1) have n1: "d1 \<noteq> a" by simp
  have "length (take (length s) s1) = length s"
    unfolding t1 ..
  then have "length s \<le> length s1"
    by simp
  with a d(2) have n2: "d2 \<noteq> a" by simp
  from lt d(2) have n3: "d1 \<noteq> d2" by simp
  have i1: "\<forall>ob. st_dict d1 (s1[a := ob]) = Inr t"
    using d(3) n1 by (simp add: st_dict_other)
  have i2: "\<forall>ob. st_dict d2 (s2[a := ob]) = Inr t"
    using d(4) n2 by (simp add: st_dict_other)
  have i3: "\<forall>ob. st_pairs a (s1[d1 := ob]) = Inr xs"
    using xs1 n1 by (simp add: st_pairs_other)
  have i4: "\<forall>ob. st_pairs a (s2[d2 := ob]) = Inr xs"
    using xs2 n2 by (simp add: st_pairs_other)
  show ?thesis
    unfolding reaggregation_tables_def
    using c d keep n1 n2 n3 i1 i2 i3 i4 by blast
qed

section \<open>The claims\<close>

subsection \<open>Per-year counts\<close>

text \<open>
  C1, as amended. For every list of records, \<open>generateDictInefficient\<close> and
  \<open>generateDictEfficient1\<close> (on that list in place of the generated data) return a
  table whose value at every year \<open>Y\<close> of 2000..2018 is the number of records whose
  year is \<open>Y\<close>. \<open>generateDictEfficient2\<close> and \<open>generateDictEfficientFor\<close> return
  such a table when every year of the list lies in 2000..2018, and raise \<open>KeyError\<close>
  otherwise.
\<close>

theorem aggregators_count_each_year:
  "(\<exists>t. generateDictInefficient_core xs = Inr t \<and> counts_every_year xs t)
   \<and> (\<exists>t. generateDictEfficient1_core xs = Inr t \<and> counts_every_year xs t)
   \<and> ((\<forall>r \<in> set xs. in_key_range (snd r)) \<longrightarrow>
        (\<exists>t. generateDictEfficient2_core xs = Inr t \<and> counts_every_year xs t)
        \<and> (\<exists>t. generateDictEfficientFor_core xs = Inr t \<and> counts_every_year xs t))
   \<and> (\<not> (\<forall>r \<in> set xs. in_key_range (snd r)) \<longrightarrow>
        (\<exists>y. generateDictEfficient2_core xs = Inl (KeyError y))
        \<and> (\<exists>y. generateDictEfficientFor_core xs = Inl (KeyError y)))"
proof (intro conjI impI)
  show "\<exists>t. generateDictInefficient_core xs = Inr t \<and> counts_every_year xs t"
    by (simp add: inefficient_core_table counts_every_year_table)
  show "\<exists>t. generateDictEfficient1_core xs = Inr t \<and> counts_every_year xs t"
    by (simp add: efficient1_core_table counts_every_year_table)
next
  assume inr: "\<forall>r \<in> set xs. in_key_range (snd r)"
  show "\<exists>t. generateDictEfficient2_core xs = Inr t \<and> counts_every_year xs t"
    by (simp add: single_pass_in_range(1) [OF inr] counts_every_year_table)
  show "\<exists>t. generateDictEfficientFor_core xs = Inr t \<and> counts_every_year xs t"
    by (simp add: single_pass_in_range(2) [OF inr] counts_every_year_table)
next
  assume out: "\<not> (\<forall>r \<in> set xs. in_key_range (snd r))"
  from single_pass_out_of_range [OF out]
  show "\<exists>y. generateDictEfficient2_core xs = Inl (KeyError y)"
    and "\<exists>y. generateDictEfficientFor_core xs = Inl (KeyError y)"
    by blast+
qed

theorem aggregators_count_each_year_witness:
  "in_key_range 2005 \<and> in_key_range 2017
   \<and> (\<exists>t. generateDictEfficientFor_core [(''AAA'', 2005), (''BBB'', 2017), (''ABC'', 2005)] = Inr t
          \<and> dict_getitem t 2005 = Inr 2 \<and> dict_getitem t 2017 = Inr 1
          \<and> dict_getitem t 2018 = Inr 0)
   \<and> \<not> in_key_range 2019
   \<and> (\<exists>y. generateDictEfficient2_core [(''AAA'', 2005), (''BBB'', 2019)] = Inl (KeyError y))"
proof -
  let ?xs = "[(''AAA'', 2005), (''BBB'', 2017), (''ABC'', 2005)] :: journal_year_pair list"
  let ?ys = "[(''AAA'', 2005), (''BBB'', 2019)] :: journal_year_pair list"
  have n: "\<not> in_key_range 2019"
    by (simp add: in_key_range_def)
  then have "\<not> (\<forall>r \<in> set ?ys. in_key_range (snd r))"
    by simp
  with aggregators_count_each_year [of ?ys]
  have raises: "\<exists>y. generateDictEfficient2_core ?ys = Inl (KeyError y)"
    by blast
  have h: "\<forall>r \<in> set ?xs. in_key_range (snd r)"
    by (simp add: in_key_range_def)
  with aggregators_count_each_year [of ?xs]
  obtain t where t: "generateDictEfficientFor_core ?xs = Inr t" "counts_every_year ?xs t"
    by blast
  from t(2) have "dict_getitem t 2005 = Inr (count_year ?xs 2005)"
    "dict_getitem t 2017 = Inr (count_year ?xs 2017)"
    "dict_getitem t 2018 = Inr (count_year ?xs 2018)"
    by (simp_all add: counts_every_year_def)
  then have "dict_getitem t 2005 = Inr 2 \<and> dict_getitem t 2017 = Inr 1
          \<and> dict_getitem t 2018 = Inr 0"
    by (simp add: count_year_def)
  moreover have "in_key_range 2005 \<and> in_key_range 2017"
    by (simp add: in_key_range_def)
  ultimately show ?thesis using t(1) n raises by blast
qed

text \<open>
  The claim as written asks this of every list and every variant; the single-pass loop
  of \<open>generateDictEfficientFor\<close> indexes a plain dictionary and raises on a year
  that is not a key.
\<close>

theorem efficientFor_raises_on_1999:
  "generateDictEfficientFor_core [(''AAA'', 1999)] = Inl (KeyError 1999)"
  by code_simp

subsection \<open>The four variants agree\<close>

text \<open>
  C2. On a list of records whose years all lie in 2000..2018, the nested-loop core of
  \<open>generateDictInefficient\<close> and the cores of \<open>generateDictEfficient1\<close>,
  \<open>generateDictEfficient2\<close> and \<open>generateDictEfficientFor\<close> all return a table,
  and the four tables are equal as mappings from year to count.
\<close>

theorem aggregators_agree:
  assumes "\<forall>r \<in> set xs. in_key_range (snd r)"
  shows "\<exists>t0 t1 t2 t3.
           generateDictInefficient_core xs = Inr t0
           \<and> generateDictEfficient1_core xs = Inr t1
           \<and> generateDictEfficient2_core xs = Inr t2
           \<and> generateDictEfficientFor_core xs = Inr t3
           \<and> map_of t0 = map_of t1 \<and> map_of t0 = map_of t2 \<and> map_of t0 = map_of t3"
  by (simp add: inefficient_core_table efficient1_core_table single_pass_in_range [OF assms])

theorem aggregators_agree_witness:
  "in_key_range 2000 \<and> in_key_range 2018
   \<and> generateDictInefficient_core [(''DCA'', 2000), (''BBB'', 2018), (''DCA'', 2000)]
       = generateDictEfficient1_core [(''DCA'', 2000), (''BBB'', 2018), (''DCA'', 2000)]
   \<and> (\<exists>t0 t2 t3.
         generateDictInefficient_core [(''DCA'', 2000), (''BBB'', 2018), (''DCA'', 2000)] = Inr t0
       \<and> generateDictEfficient2_core [(''DCA'', 2000), (''BBB'', 2018), (''DCA'', 2000)] = Inr t2
       \<and> generateDictEfficientFor_core [(''DCA'', 2000), (''BBB'', 2018), (''DCA'', 2000)] = Inr t3
       \<and> map_of t0 = map_of t2 \<and> map_of t0 = map_of t3 \<and> map_of t0 2000 = Some 2)"
proof -
  let ?xs = "[(''DCA'', 2000), (''BBB'', 2018), (''DCA'', 2000)] :: journal_year_pair list"
  have h: "\<forall>r \<in> set ?xs. in_key_range (snd r)"
    by (simp add: in_key_range_def)
  have e: "generateDictInefficient_core ?xs = generateDictEfficient1_core ?xs"
    by code_simp
  have v: "map_option (\<lambda>t. map_of t 2000) (case generateDictInefficient_core ?xs of Inr t \<Rightarrow> Some t | Inl e \<Rightarrow> None) = Some (Some 2)"
    by code_simp
  from aggregators_agree [OF h] obtain t0 t1 t2 t3 where t:
    "generateDictInefficient_core ?xs = Inr t0"
    "generateDictEfficient2_core ?xs = Inr t2"
    "generateDictEfficientFor_core ?xs = Inr t3"
    "map_of t0 = map_of t2" "map_of t0 = map_of t3"
    by blast
  from v t(1) have "map_of t0 2000 = Some 2" by simp
  moreover have "in_key_range 2000 \<and> in_key_range 2018"
    by (simp add: in_key_range_def)
  ultimately show ?thesis using e t by blast
qed

subsection \<open>Records outside the key range\<close>

text \<open>
  C3, as amended. On a list that contains a record whose year lies outside 2000..2018,
  \<open>generateDictInefficient\<close> and \<open>generateDictEfficient1\<close> complete without an
  error, the table they return is the table of the list without its out-of-range
  records (so such a record is in no bucket), and the values of the table sum to less
  than the length of the list. \<open>generateDictEfficient2\<close> and
  \<open>generateDictEfficientFor\<close> raise \<open>KeyError\<close> for the first out-of-range year
  of the list.
\<close>

theorem out_of_range_record:
  assumes "\<exists>r \<in> set xs. \<not> in_key_range (snd r)"
  shows "(\<exists>t. generateDictInefficient_core xs = Inr t
            \<and> generateDictInefficient_core (filter (\<lambda>r. in_key_range (snd r)) xs) = Inr t
            \<and> result_size t < int (length xs))
       \<and> (\<exists>t. generateDictEfficient1_core xs = Inr t
            \<and> generateDictEfficient1_core (filter (\<lambda>r. in_key_range (snd r)) xs) = Inr t
            \<and> result_size t < int (length xs))
       \<and> (\<exists>r \<in> set xs. \<not> in_key_range (snd r)
            \<and> find (\<lambda>r. \<not> in_key_range (snd r)) xs = Some r
            \<and> generateDictEfficient2_core xs = Inl (KeyError (snd r))
            \<and> generateDictEfficientFor_core xs = Inl (KeyError (snd r)))"
proof (intro conjI)
  show "\<exists>t. generateDictInefficient_core xs = Inr t
            \<and> generateDictInefficient_core (filter (\<lambda>r. in_key_range (snd r)) xs) = Inr t
            \<and> result_size t < int (length xs)"
    using result_size_less [OF assms]
    by (simp add: inefficient_core_table frequency_table_filter)
  show "\<exists>t. generateDictEfficient1_core xs = Inr t
            \<and> generateDictEfficient1_core (filter (\<lambda>r. in_key_range (snd r)) xs) = Inr t
            \<and> result_size t < int (length xs)"
    using result_size_less [OF assms]
    by (simp add: efficient1_core_table frequency_table_filter)
  from assms have "\<not> (\<forall>r \<in> set xs. in_key_range (snd r))"
    by blast
  then show "\<exists>r \<in> set xs. \<not> in_key_range (snd r)
            \<and> find (\<lambda>r. \<not> in_key_range (snd r)) xs = Some r
            \<and> generateDictEfficient2_core xs = Inl (KeyError (snd r))
            \<and> generateDictEfficientFor_core xs = Inl (KeyError (snd r))"
    by (rule single_pass_out_of_range)
qed

theorem out_of_range_record_witness:
  "\<not> in_key_range 1999
   \<and> (\<exists>t. generateDictInefficient_core [(''AAA'', 2005), (''BBB'', 1999), (''CCC'', 2018)] = Inr t
          \<and> generateDictInefficient_core [(''AAA'', 2005), (''CCC'', 2018)] = Inr t
          \<and> result_size t < 3)
   \<and> (\<exists>t. generateDictEfficient1_core [(''AAA'', 2005), (''BBB'', 1999), (''CCC'', 2018)] = Inr t
          \<and> generateDictEfficient1_core [(''AAA'', 2005), (''CCC'', 2018)] = Inr t
          \<and> result_size t < 3)
   \<and> generateDictEfficient2_core [(''AAA'', 2005), (''BBB'', 1999), (''CCC'', 2018)]
       = Inl (KeyError 1999)
   \<and> generateDictEfficientFor_core [(''AAA'', 2005), (''BBB'', 1999), (''CCC'', 2018)]
       = Inl (KeyError 1999)"
proof -
  let ?xs = "[(''AAA'', 2005), (''BBB'', 1999), (''CCC'', 2018)] :: journal_year_pair list"
  have n: "\<not> in_key_range 1999"
    by (simp add: in_key_range_def)
  then have h: "\<exists>r \<in> set ?xs. \<not> in_key_range (snd r)"
    by simp
  have f: "filter (\<lambda>r. in_key_range (snd r)) ?xs = [(''AAA'', 2005), (''CCC'', 2018)]"
    by (simp add: in_key_range_def)
  from out_of_range_record [OF h] show ?thesis
    unfolding f using n by (auto simp: in_key_range_def)
qed

text \<open>
  The claim as written says that every variant completes; the helper
  \<open>getUpdateValue\<close> of \<open>generateDictEfficient2\<close> reads \<open>yearDict[year]\<close> from a
  plain dictionary and raises on the year 2019.
\<close>

theorem efficient2_raises_on_2019:
  "generateDictEfficient2_core [(''AAA'', 2019)] = Inl (KeyError 2019)"
  by code_simp

subsection \<open>Generated data\<close>

text \<open>
  C4. For every count \<open>n\<close> and every outcome of the random draws, each of the four
  aggregators returns the table of the \<open>n\<close> records that the generator produced: one
  entry for every year of 2000..2018, holding the number of generated records of that
  year, and values that sum to exactly \<open>n\<close>.
\<close>

theorem generated_records_aggregated:
  "\<exists>xs w'. generateData n w = (Inr xs, w') \<and> length xs = n
     \<and> generateDictInefficient n w = (Inr (frequency_table xs), w')
     \<and> generateDictEfficient1 n w = (Inr (frequency_table xs), w')
     \<and> generateDictEfficient2 n w = (Inr (frequency_table xs), w')
     \<and> generateDictEfficientFor n w = (Inr (frequency_table xs), w')
     \<and> counts_every_year xs (frequency_table xs)
     \<and> table_invariant xs (frequency_table xs)
     \<and> result_size (frequency_table xs) = int n"
proof -
  from generateData_total [of n w] obtain xs w' where
    data: "generateData n w = (Inr xs, w')" and len: "length xs = n"
    and years: "\<forall>r \<in> set xs. 2000 \<le> snd r \<and> snd r < 2018"
    by blast
  from years have inr: "\<forall>r \<in> set xs. in_key_range (snd r)"
    by (auto simp: in_key_range_def)
  have size: "result_size (frequency_table xs) = int n"
    using result_size_all_in_range [OF inr] len by simp
  have "generateDictInefficient n w = (Inr (frequency_table xs), w')"
    by (simp add: generateDictInefficient_def aggregate_def data inefficient_core_table)
  moreover have "generateDictEfficient1 n w = (Inr (frequency_table xs), w')"
    by (simp add: generateDictEfficient1_def aggregate_def data efficient1_core_table)
  moreover have "generateDictEfficient2 n w = (Inr (frequency_table xs), w')"
    by (simp add: generateDictEfficient2_def aggregate_def data single_pass_in_range(1) [OF inr])
  moreover have "generateDictEfficientFor n w = (Inr (frequency_table xs), w')"
    by (simp add: generateDictEfficientFor_def aggregate_def data single_pass_in_range(2) [OF inr])
  ultimately show ?thesis
    using data len size counts_every_year_table [of xs] table_invariant_frequency_table [of xs]
    by blast
qed

theorem generated_records_aggregated_witness:
  "fst (generateData 4 \<lparr>py_random = (\<lambda>i. i), np_random = (\<lambda>i. 7 * i + 3)\<rparr>)
     = Inr [(''ABC'', 2003), (''DAB'', 2010), (''CDA'', 2017), (''BCD'', 2006)]
   \<and> fst (generateDictEfficientFor 4 \<lparr>py_random = (\<lambda>i. i), np_random = (\<lambda>i. 7 * i + 3)\<rparr>)
     = Inr [(2000, 0), (2001, 0), (2002, 0), (2003, 1), (2004, 0), (2005, 0), (2006, 1),
            (2007, 0), (2008, 0), (2009, 0), (2010, 1), (2011, 0), (2012, 0), (2013, 0),
            (2014, 0), (2015, 0), (2016, 0), (2017, 1), (2018, 0)]
   \<and> result_size [(2000, 0), (2001, 0), (2002, 0), (2003, 1), (2004, 0), (2005, 0), (2006, 1),
            (2007, 0), (2008, 0), (2009, 0), (2010, 1), (2011, 0), (2012, 0), (2013, 0),
            (2014, 0), (2015, 0), (2016, 0), (2017, 1), (2018, 0)] = 4"
proof -
  let ?w = "\<lparr>py_random = (\<lambda>i. i), np_random = (\<lambda>i. 7 * i + 3)\<rparr>"
  let ?L = "[(''ABC'', 2003), (''DAB'', 2010), (''CDA'', 2017), (''BCD'', 2006)]
            :: journal_year_pair list"
  let ?T = "[(2000, 0), (2001, 0), (2002, 0), (2003, 1), (2004, 0), (2005, 0), (2006, 1),
            (2007, 0), (2008, 0), (2009, 0), (2010, 1), (2011, 0), (2012, 0), (2013, 0),
            (2014, 0), (2015, 0), (2016, 0), (2017, 1), (2018, 0)] :: pydict"
  have g: "fst (generateData 4 ?w) = Inr ?L"
    by code_simp
  have f: "frequency_table ?L = ?T"
    by code_simp
  from generated_records_aggregated [of 4 ?w] obtain xs w' where
    x: "generateData 4 ?w = (Inr xs, w')"
       "generateDictEfficientFor 4 ?w = (Inr (frequency_table xs), w')"
       "result_size (frequency_table xs) = int 4"
    by blast
  from g x(1) have "xs = ?L" by simp
  with x(2,3) f have "fst (generateDictEfficientFor 4 ?w) = Inr ?T" "result_size ?T = 4"
    by simp_all
  with g show ?thesis by blast
qed

subsection \<open>The invariant of the table\<close>

text \<open>
  C5, as amended. For every list of records, the empty one included,
  \<open>generateDictInefficient\<close> and \<open>generateDictEfficient1\<close> return a table with
  exactly one entry for every year of 2000..2018 (19 keys), the value 0 at a year
  that no record has, no negative value, and values that sum to the number of records
  whose year lies in 2000..2018. \<open>generateDictEfficient2\<close> and
  \<open>generateDictEfficientFor\<close> return such a table when every year of the list lies
  in 2000..2018, and raise \<open>KeyError\<close> otherwise.
\<close>

theorem table_invariant_of_aggregators:
  "(\<exists>t. generateDictInefficient_core xs = Inr t \<and> table_invariant xs t)
   \<and> (\<exists>t. generateDictEfficient1_core xs = Inr t \<and> table_invariant xs t)
   \<and> ((\<forall>r \<in> set xs. in_key_range (snd r)) \<longrightarrow>
        (\<exists>t. generateDictEfficient2_core xs = Inr t \<and> table_invariant xs t)
        \<and> (\<exists>t. generateDictEfficientFor_core xs = Inr t \<and> table_invariant xs t))
   \<and> (\<not> (\<forall>r \<in> set xs. in_key_range (snd r)) \<longrightarrow>
        (\<exists>y. generateDictEfficient2_core xs = Inl (KeyError y))
        \<and> (\<exists>y. generateDictEfficientFor_core xs = Inl (KeyError y)))"
proof (intro conjI impI)
  show "\<exists>t. generateDictInefficient_core xs = Inr t \<and> table_invariant xs t"
    by (simp add: inefficient_core_table table_invariant_frequency_table)
  show "\<exists>t. generateDictEfficient1_core xs = Inr t \<and> table_invariant xs t"
    by (simp add: efficient1_core_table table_invariant_frequency_table)
next
  assume inr: "\<forall>r \<in> set xs. in_key_range (snd r)"
  show "\<exists>t. generateDictEfficient2_core xs = Inr t \<and> table_invariant xs t"
    by (simp add: single_pass_in_range(1) [OF inr] table_invariant_frequency_table)
  show "\<exists>t. generateDictEfficientFor_core xs = Inr t \<and> table_invariant xs t"
    by (simp add: single_pass_in_range(2) [OF inr] table_invariant_frequency_table)
next
  assume out: "\<not> (\<forall>r \<in> set xs. in_key_range (snd r))"
  from single_pass_out_of_range [OF out]
  show "\<exists>y. generateDictEfficient2_core xs = Inl (KeyError y)"
    and "\<exists>y. generateDictEfficientFor_core xs = Inl (KeyError y)"
    by blast+
qed

theorem table_invariant_of_aggregators_witness:
  "(\<exists>t. generateDictEfficient2_core [] = Inr t \<and> length (dict_keys t) = 19
        \<and> result_size t = 0 \<and> dict_getitem t 2000 = Inr 0 \<and> dict_getitem t 2018 = Inr 0)
   \<and> (\<exists>t. generateDictInefficient_core [(''ABC'', 2001), (''BCD'', 1990)] = Inr t
        \<and> length (dict_keys t) = 19 \<and> result_size t = 1 \<and> dict_getitem t 2002 = Inr 0)
   \<and> in_key_range 2001 \<and> in_key_range 2018
   \<and> (\<exists>t. generateDictEfficientFor_core [(''ABC'', 2001), (''BCD'', 2018)] = Inr t
        \<and> length (dict_keys t) = 19 \<and> result_size t = 2 \<and> dict_getitem t 2002 = Inr 0)
   \<and> \<not> in_key_range 1990
   \<and> (\<exists>y. generateDictEfficientFor_core [(''ABC'', 2001), (''BCD'', 1990)] = Inl (KeyError y))"
proof -
  let ?ys = "[(''ABC'', 2001), (''BCD'', 1990)] :: journal_year_pair list"
  from table_invariant_of_aggregators [of "[]"]
  obtain t where t: "generateDictEfficient2_core [] = Inr t" "table_invariant [] t"
    by auto
  from t(2) have "length (dict_keys t) = 19 \<and> result_size t = 0
      \<and> dict_getitem t 2000 = Inr 0 \<and> dict_getitem t 2018 = Inr 0"
    by (simp add: table_invariant_def count_year_def)
  with t(1) have one: "\<exists>t. generateDictEfficient2_core [] = Inr t \<and> length (dict_keys t) = 19
        \<and> result_size t = 0 \<and> dict_getitem t 2000 = Inr 0 \<and> dict_getitem t 2018 = Inr 0"
    by blast
  from table_invariant_of_aggregators [of ?ys]
  obtain u where u: "generateDictInefficient_core ?ys = Inr u" "table_invariant ?ys u"
    by auto
  from u(2) have "length (dict_keys u) = 19 \<and> result_size u = 1 \<and> dict_getitem u 2002 = Inr 0"
    by (simp add: table_invariant_def count_year_def in_key_range_def)
  with u(1) have two: "\<exists>t. generateDictInefficient_core ?ys = Inr t
        \<and> length (dict_keys t) = 19 \<and> result_size t = 1 \<and> dict_getitem t 2002 = Inr 0"
    by blast
  let ?zs = "[(''ABC'', 2001), (''BCD'', 2018)] :: journal_year_pair list"
  have r: "in_key_range 2001 \<and> in_key_range 2018"
    by (simp add: in_key_range_def)
  then have "\<forall>r \<in> set ?zs. in_key_range (snd r)"
    by simp
  with table_invariant_of_aggregators [of ?zs]
  obtain v where v: "generateDictEfficientFor_core ?zs = Inr v" "table_invariant ?zs v"
    by blast
  from v(2) have "length (dict_keys v) = 19 \<and> result_size v = 2 \<and> dict_getitem v 2002 = Inr 0"
    by (simp add: table_invariant_def count_year_def in_key_range_def)
  with v(1) have "\<exists>t. generateDictEfficientFor_core ?zs = Inr t
        \<and> length (dict_keys t) = 19 \<and> result_size t = 2 \<and> dict_getitem t 2002 = Inr 0"
    by blast
  moreover have n: "\<not> in_key_range 1990"
    by (simp add: in_key_range_def)
  moreover from n have "\<not> (\<forall>r \<in> set ?ys. in_key_range (snd r))"
    by simp
  with table_invariant_of_aggregators [of ?ys]
  have "\<exists>y. generateDictEfficientFor_core ?ys = Inl (KeyError y)"
    by blast
  ultimately show ?thesis using one two r by blast
qed

text \<open>
  The claim as written asks this of every list and every variant; the loop of
  \<open>generateDictEfficientFor\<close> counts the record of 2005 and then raises on the
  record of 2019, so that no table is returned.
\<close>

theorem efficientFor_raises_after_counting:
  "generateDictEfficientFor_core [(''AAA'', 2005), (''BBB'', 2019)] = Inl (KeyError 2019)"
  by code_simp

subsection \<open>The generator\<close>

text \<open>
  C6. For every count \<open>n\<close> and every outcome of the random draws, \<open>generateData(n)\<close>
  returns exactly \<open>n\<close> pairs; every label has exactly 3 characters, each one of
  A, B, C, D, and every year \<open>y\<close> satisfies \<open>2000 \<le> y < 2018\<close>.
\<close>

theorem generateData_contract:
  "\<exists>xs w'. generateData n w = (Inr xs, w') \<and> length xs = n
     \<and> (\<forall>r \<in> set xs. length (fst r) = 3
            \<and> set (fst r) \<subseteq> {CHR ''A'', CHR ''B'', CHR ''C'', CHR ''D''}
            \<and> 2000 \<le> snd r \<and> snd r < 2018)"
proof -
  have "set ''ABCD'' = {CHR ''A'', CHR ''B'', CHR ''C'', CHR ''D''}"
    by simp
  with generateData_total [of n w] show ?thesis
    by simp
qed

theorem generateData_contract_witness:
  "fst (generateData 2 \<lparr>py_random = (\<lambda>i. i), np_random = (\<lambda>i. 7 * i + 3)\<rparr>)
     = Inr [(''ABC'', 2003), (''DAB'', 2010)]
   \<and> (\<exists>xs w'. generateData 2 \<lparr>py_random = (\<lambda>i. i), np_random = (\<lambda>i. 7 * i + 3)\<rparr> = (Inr xs, w')
         \<and> length xs = 2 \<and> length (fst (hd xs)) = 3 \<and> 2000 \<le> snd (hd xs) \<and> snd (hd xs) < 2018)"
proof -
  let ?w = "\<lparr>py_random = (\<lambda>i. i), np_random = (\<lambda>i. 7 * i + 3)\<rparr>"
  have v: "fst (generateData 2 ?w) = Inr [(''ABC'', 2003), (''DAB'', 2010)]"
    by code_simp
  from generateData_contract [of 2 ?w] obtain xs w' where
    xs: "generateData 2 ?w = (Inr xs, w')" "length xs = 2"
    "\<forall>r \<in> set xs. length (fst r) = 3
            \<and> set (fst r) \<subseteq> {CHR ''A'', CHR ''B'', CHR ''C'', CHR ''D''}
            \<and> 2000 \<le> snd r \<and> snd r < 2018"
    by blast
  from xs(2) have "hd xs \<in> set xs"
    by (cases xs) auto
  with xs(3) have "length (fst (hd xs)) = 3 \<and> 2000 \<le> snd (hd xs) \<and> snd (hd xs) < 2018"
    by blast
  with v xs(1,2) show ?thesis by blast
qed

subsection \<open>The three-record scenario\<close>

text \<open>
  C7, as amended. On the input [("AAA",2005),("BBB",2005),("CCC",2008)] every variant
  returns a table whose values sum to 3, with the value 2 at key 2005, the value 1 at
  key 2008, and the value 0 at all other 17 keys.
\<close>

theorem scenario_tables:
  "generateDictInefficient_core scenario = Inr scenario_table
   \<and> generateDictEfficient1_core scenario = Inr scenario_table
   \<and> generateDictEfficient2_core scenario = Inr scenario_table
   \<and> generateDictEfficientFor_core scenario = Inr scenario_table
   \<and> result_size scenario_table = 3
   \<and> dict_getitem scenario_table 2005 = Inr 2
   \<and> dict_getitem scenario_table 2008 = Inr 1
   \<and> length (keys_other_than [2005, 2008] scenario_table) = 17
   \<and> list_all (\<lambda>k. dict_getitem scenario_table k = Inr 0)
        (keys_other_than [2005, 2008] scenario_table)"
proof (intro conjI)
  show "generateDictInefficient_core scenario = Inr scenario_table"
    by code_simp
  show "generateDictEfficient1_core scenario = Inr scenario_table"
    by code_simp
  show "generateDictEfficient2_core scenario = Inr scenario_table"
    by code_simp
  show "generateDictEfficientFor_core scenario = Inr scenario_table"
    by code_simp
  show "result_size scenario_table = 3"
    by code_simp
  show "dict_getitem scenario_table 2005 = Inr 2"
    by code_simp
  show "dict_getitem scenario_table 2008 = Inr 1"
    by code_simp
  show "length (keys_other_than [2005, 2008] scenario_table) = 17"
    by code_simp
  show "list_all (\<lambda>k. dict_getitem scenario_table k = Inr 0)
        (keys_other_than [2005, 2008] scenario_table)"
    by code_simp
qed

theorem scenario_tables_witness:
  "generateDictEfficientFor_core [(''AAA'', 2005), (''BBB'', 2005), (''CCC'', 2008)]
     = Inr scenario_table
   \<and> sum_list (map snd scenario_table) = 3"
  using scenario_tables by (simp add: scenario_def result_size_def dict_values_def)

text \<open>
  The claim as written counts 16 other keys; the table has 19 keys, so 17 keys other
  than 2005 and 2008.
\<close>

theorem scenario_other_keys:
  "generateDictEfficientFor_core [(''AAA'', 2005), (''BBB'', 2005), (''CCC'', 2008)]
     = Inr scenario_table
   \<and> length (keys_other_than [2005, 2008] scenario_table) \<noteq> 16"
  by code_simp

subsection \<open>Aggregating twice\<close>

text \<open>
  C8, as amended. For every store and every list of records in it, aggregating the
  list twice with the same variant gives the same outcome both times and leaves the
  list unchanged. \<open>generateDictInefficient\<close> and \<open>generateDictEfficient1\<close> return
  two equal tables, and so do \<open>generateDictEfficient2\<close> and
  \<open>generateDictEfficientFor\<close> when every year of the list lies in 2000..2018; on any
  other list these two raise the same \<open>KeyError\<close> both times. Each returned table
  has the content that the counting core gives, is a new object, is not the list, and
  holds no reference to it: a later change of the list leaves the table as it is.
\<close>

theorem reaggregation_idempotent:
  assumes "st_pairs a s = Inr xs"
  shows "(\<exists>t. generateDictInefficient_core xs = Inr t
            \<and> reaggregation_tables generateDictInefficient_st a xs s t)
       \<and> (\<exists>t. generateDictEfficient1_core xs = Inr t
            \<and> reaggregation_tables generateDictEfficient1_st a xs s t)
       \<and> ((\<forall>r \<in> set xs. in_key_range (snd r)) \<longrightarrow>
            (\<exists>t. generateDictEfficient2_core xs = Inr t
               \<and> reaggregation_tables generateDictEfficient2_st a xs s t)
            \<and> (\<exists>t. generateDictEfficientFor_core xs = Inr t
               \<and> reaggregation_tables generateDictEfficientFor_st a xs s t))
       \<and> (\<not> (\<forall>r \<in> set xs. in_key_range (snd r)) \<longrightarrow>
            (\<exists>y. generateDictEfficient2_core xs = Inl (KeyError y)
               \<and> reaggregation_raises generateDictEfficient2_st a xs s (KeyError y))
            \<and> (\<exists>y. generateDictEfficientFor_core xs = Inl (KeyError y)
               \<and> reaggregation_raises generateDictEfficientFor_st a xs s (KeyError y)))"
proof (intro conjI impI)
  have "reaggregation_tables generateDictInefficient_st a xs s (frequency_table xs)"
  proof (rule reaggregation_tables_of_run_ok)
    show "run_ok s' (Inr (frequency_table xs)) (generateDictInefficient_st a s')"
      if "st_pairs a s' = Inr xs" for s'
      using generateDictInefficient_st_ok [OF that] by (simp add: inefficient_core_table)
  qed (rule assms)
  then show "\<exists>t. generateDictInefficient_core xs = Inr t
            \<and> reaggregation_tables generateDictInefficient_st a xs s t"
    by (simp add: inefficient_core_table)
  have "reaggregation_tables generateDictEfficient1_st a xs s (frequency_table xs)"
  proof (rule reaggregation_tables_of_run_ok)
    show "run_ok s' (Inr (frequency_table xs)) (generateDictEfficient1_st a s')"
      if "st_pairs a s' = Inr xs" for s'
      using generateDictEfficient1_st_ok [OF that] by (simp add: efficient1_core_table)
  qed (rule assms)
  then show "\<exists>t. generateDictEfficient1_core xs = Inr t
            \<and> reaggregation_tables generateDictEfficient1_st a xs s t"
    by (simp add: efficient1_core_table)
next
  assume inr: "\<forall>r \<in> set xs. in_key_range (snd r)"
  have "reaggregation_tables generateDictEfficient2_st a xs s (frequency_table xs)"
  proof (rule reaggregation_tables_of_run_ok)
    show "run_ok s' (Inr (frequency_table xs)) (generateDictEfficient2_st a s')"
      if "st_pairs a s' = Inr xs" for s'
      using generateDictEfficient2_st_ok [OF that] by (simp add: single_pass_in_range(1) [OF inr])
  qed (rule assms)
  then show "\<exists>t. generateDictEfficient2_core xs = Inr t
               \<and> reaggregation_tables generateDictEfficient2_st a xs s t"
    by (simp add: single_pass_in_range(1) [OF inr])
  have "reaggregation_tables generateDictEfficientFor_st a xs s (frequency_table xs)"
  proof (rule reaggregation_tables_of_run_ok)
    show "run_ok s' (Inr (frequency_table xs)) (generateDictEfficientFor_st a s')"
      if "st_pairs a s' = Inr xs" for s'
      using generateDictEfficientFor_st_ok [OF that] by (simp add: single_pass_in_range(2) [OF inr])
  qed (rule assms)
  then show "\<exists>t. generateDictEfficientFor_core xs = Inr t
               \<and> reaggregation_tables generateDictEfficientFor_st a xs s t"
    by (simp add: single_pass_in_range(2) [OF inr])
next
  assume out: "\<not> (\<forall>r \<in> set xs. in_key_range (snd r))"
  from single_pass_out_of_range [OF out] obtain r where
    e2: "generateDictEfficient2_core xs = Inl (KeyError (snd r))"
    and ef: "generateDictEfficientFor_core xs = Inl (KeyError (snd r))"
    by auto
  have "reaggregation_raises generateDictEfficient2_st a xs s (KeyError (snd r))"
  proof (rule reaggregation_raises_of_run_ok)
    show "run_ok s' (Inl (KeyError (snd r))) (generateDictEfficient2_st a s')"
      if "st_pairs a s' = Inr xs" for s'
      using generateDictEfficient2_st_ok [OF that] by (simp add: e2)
  qed (rule assms)
  with e2 show "\<exists>y. generateDictEfficient2_core xs = Inl (KeyError y)
               \<and> reaggregation_raises generateDictEfficient2_st a xs s (KeyError y)"
    by blast
  have "reaggregation_raises generateDictEfficientFor_st a xs s (KeyError (snd r))"
  proof (rule reaggregation_raises_of_run_ok)
    show "run_ok s' (Inl (KeyError (snd r))) (generateDictEfficientFor_st a s')"
      if "st_pairs a s' = Inr xs" for s'
      using generateDictEfficientFor_st_ok [OF that] by (simp add: ef)
  qed (rule assms)
  with ef show "\<exists>y. generateDictEfficientFor_core xs = Inl (KeyError y)
               \<and> reaggregation_raises generateDictEfficientFor_st a xs s (KeyError y)"
    by blast
qed

theorem reaggregation_idempotent_witness:
  "st_pairs 0 [PairList [(''AAA'', 2005), (''BBB'', 2005), (''CCC'', 2008)]]
     = Inr [(''AAA'', 2005), (''BBB'', 2005), (''CCC'', 2008)]
   \<and> in_key_range 2005 \<and> in_key_range 2008
   \<and> reaggregation_tables generateDictEfficientFor_st 0
        [(''AAA'', 2005), (''BBB'', 2005), (''CCC'', 2008)]
        [PairList [(''AAA'', 2005), (''BBB'', 2005), (''CCC'', 2008)]] scenario_table
   \<and> reaggregation_tables generateDictInefficient_st 0
        [(''AAA'', 2005), (''BBB'', 2005), (''CCC'', 2008)]
        [PairList [(''AAA'', 2005), (''BBB'', 2005), (''CCC'', 2008)]] scenario_table
   \<and> generateDictEfficientFor_st 0 [PairList [(''AAA'', 2005), (''BBB'', 2005), (''CCC'', 2008)]]
       = Some (Inr 1, [PairList [(''AAA'', 2005), (''BBB'', 2005), (''CCC'', 2008)],
                       Dict scenario_table])
   \<and> generateDictEfficientFor_st 0 [PairList [(''AAA'', 2005), (''BBB'', 2005), (''CCC'', 2008)],
                                     Dict scenario_table]
       = Some (Inr 2, [PairList [(''AAA'', 2005), (''BBB'', 2005), (''CCC'', 2008)],
                       Dict scenario_table, Dict scenario_table])
   \<and> st_pairs 0 [PairList [(''AAA'', 2005), (''BBB'', 2019)]]
       = Inr [(''AAA'', 2005), (''BBB'', 2019)]
   \<and> \<not> in_key_range 2019
   \<and> reaggregation_raises generateDictEfficient2_st 0 [(''AAA'', 2005), (''BBB'', 2019)]
        [PairList [(''AAA'', 2005), (''BBB'', 2019)]] (KeyError 2019)"
proof -
  let ?xs = "[(''AAA'', 2005), (''BBB'', 2005), (''CCC'', 2008)] :: journal_year_pair list"
  let ?ys = "[(''AAA'', 2005), (''BBB'', 2019)] :: journal_year_pair list"
  have h: "st_pairs 0 [PairList ?xs] = Inr ?xs"
    by (simp add: st_pairs_def)
  have r: "in_key_range 2005 \<and> in_key_range 2008"
    by (simp add: in_key_range_def)
  then have inr: "\<forall>r \<in> set ?xs. in_key_range (snd r)"
    by simp
  have c1: "generateDictEfficientFor_core ?xs = Inr scenario_table"
    by code_simp
  have c2: "generateDictInefficient_core ?xs = Inr scenario_table"
    by code_simp
  from reaggregation_idempotent [OF h] inr c1 c2
  have tabs: "reaggregation_tables generateDictEfficientFor_st 0 ?xs [PairList ?xs] scenario_table
            \<and> reaggregation_tables generateDictInefficient_st 0 ?xs [PairList ?xs] scenario_table"
    by auto
  have e1: "generateDictEfficientFor_st 0 [PairList ?xs]
            = Some (Inr 1, [PairList ?xs, Dict scenario_table])"
    by code_simp
  have e2: "generateDictEfficientFor_st 0 [PairList ?xs, Dict scenario_table]
            = Some (Inr 2, [PairList ?xs, Dict scenario_table, Dict scenario_table])"
    by code_simp
  have h': "st_pairs 0 [PairList ?ys] = Inr ?ys"
    by (simp add: st_pairs_def)
  have n: "\<not> in_key_range 2019"
    by (simp add: in_key_range_def)
  then have out: "\<not> (\<forall>r \<in> set ?ys. in_key_range (snd r))"
    by simp
  have c3: "generateDictEfficient2_core ?ys = Inl (KeyError 2019)"
    by code_simp
  from reaggregation_idempotent [OF h'] out c3
  have raises: "reaggregation_raises generateDictEfficient2_st 0 ?ys [PairList ?ys] (KeyError 2019)"
    by auto
  from h r tabs e1 e2 h' n raises show ?thesis
    by blast
qed

text \<open>
  The claim as written says that two tables are returned for every list; on a list
  with the year 2019 both calls of \<open>generateDictEfficientFor\<close> raise, and the store
  holds only the dictionaries of zeros that the calls had made.
\<close>

theorem efficientFor_st_raises_twice:
  "generateDictEfficientFor_st 0 [PairList [(''AAA'', 2019)]]
     = Some (Inl (KeyError 2019), [PairList [(''AAA'', 2019)], Dict init_yearDict])
   \<and> generateDictEfficientFor_st 0 [PairList [(''AAA'', 2019)], Dict init_yearDict]
     = Some (Inl (KeyError 2019),
         [PairList [(''AAA'', 2019)], Dict init_yearDict, Dict init_yearDict])"
  by code_simp

subsection \<open>Labels have no influence\<close>

text \<open>
  C9, as amended. Two lists of records whose years agree position by position give
  the same outcome in every variant, whatever their labels are:
  \<open>generateDictInefficient\<close> and \<open>generateDictEfficient1\<close> return the same table for
  both, and so do \<open>generateDictEfficient2\<close> and \<open>generateDictEfficientFor\<close> when
  every year lies in 2000..2018; on any other lists these two raise the same
  \<open>KeyError\<close> for both.
\<close>

theorem label_independence:
  assumes "map snd xs = map snd ys"
  shows "(\<exists>t. generateDictInefficient_core xs = Inr t \<and> generateDictInefficient_core ys = Inr t)
       \<and> (\<exists>t. generateDictEfficient1_core xs = Inr t \<and> generateDictEfficient1_core ys = Inr t)
       \<and> ((\<forall>r \<in> set xs. in_key_range (snd r)) \<longrightarrow>
            (\<exists>t. generateDictEfficient2_core xs = Inr t \<and> generateDictEfficient2_core ys = Inr t)
            \<and> (\<exists>t. generateDictEfficientFor_core xs = Inr t
                  \<and> generateDictEfficientFor_core ys = Inr t))
       \<and> (\<not> (\<forall>r \<in> set xs. in_key_range (snd r)) \<longrightarrow>
            (\<exists>y. generateDictEfficient2_core xs = Inl (KeyError y)
                  \<and> generateDictEfficient2_core ys = Inl (KeyError y))
            \<and> (\<exists>y. generateDictEfficientFor_core xs = Inl (KeyError y)
                  \<and> generateDictEfficientFor_core ys = Inl (KeyError y)))"
proof -
  have t: "frequency_table xs = frequency_table ys"
    using assms by (rule frequency_table_years)
  have e2: "generateDictEfficient2_core xs = generateDictEfficient2_core ys"
    unfolding efficient2_core_table find_years assms t by simp
  have ef: "generateDictEfficientFor_core xs = generateDictEfficientFor_core ys"
    unfolding efficientFor_core_table find_years assms t by simp
  show ?thesis
  proof (intro conjI impI)
    show "\<exists>t. generateDictInefficient_core xs = Inr t \<and> generateDictInefficient_core ys = Inr t"
      by (simp add: inefficient_core_table t)
    show "\<exists>t. generateDictEfficient1_core xs = Inr t \<and> generateDictEfficient1_core ys = Inr t"
      by (simp add: efficient1_core_table t)
  next
    assume inr: "\<forall>r \<in> set xs. in_key_range (snd r)"
    show "\<exists>t. generateDictEfficient2_core xs = Inr t \<and> generateDictEfficient2_core ys = Inr t"
      using single_pass_in_range(1) [OF inr] e2 by simp
    show "\<exists>t. generateDictEfficientFor_core xs = Inr t \<and> generateDictEfficientFor_core ys = Inr t"
      using single_pass_in_range(2) [OF inr] ef by simp
  next
    assume out: "\<not> (\<forall>r \<in> set xs. in_key_range (snd r))"
    from single_pass_out_of_range [OF out] obtain r where
      k2: "generateDictEfficient2_core xs = Inl (KeyError (snd r))" and
      kf: "generateDictEfficientFor_core xs = Inl (KeyError (snd r))"
      by auto
    from k2 e2 have "generateDictEfficient2_core ys = Inl (KeyError (snd r))"
      by simp
    with k2 show "\<exists>y. generateDictEfficient2_core xs = Inl (KeyError y)
                  \<and> generateDictEfficient2_core ys = Inl (KeyError y)"
      by blast
    from kf ef have "generateDictEfficientFor_core ys = Inl (KeyError (snd r))"
      by simp
    with kf show "\<exists>y. generateDictEfficientFor_core xs = Inl (KeyError y)
                  \<and> generateDictEfficientFor_core ys = Inl (KeyError y)"
      by blast
  qed
qed

theorem label_independence_witness:
  "map snd [(''AAA'', 2005::int), (''BCD'', 2011)] = map snd [(''DDD'', 2005), (''D'', 2011)]
   \<and> in_key_range 2005 \<and> in_key_range 2011
   \<and> (\<exists>t. generateDictEfficient2_core [(''AAA'', 2005), (''BCD'', 2011)] = Inr t
         \<and> generateDictEfficient2_core [(''DDD'', 2005), (''D'', 2011)] = Inr t
         \<and> dict_getitem t 2011 = Inr 1)
   \<and> (\<exists>t. generateDictInefficient_core [(''AAA'', 2005), (''BCD'', 2011)] = Inr t
         \<and> generateDictInefficient_core [(''DDD'', 2005), (''D'', 2011)] = Inr t)
   \<and> map snd [(''AAA'', 1999::int)] = map snd [(''ZZZ'', 1999)]
   \<and> \<not> in_key_range 1999
   \<and> generateDictEfficientFor_core [(''AAA'', 1999)] = Inl (KeyError 1999)
   \<and> generateDictEfficientFor_core [(''ZZZ'', 1999)] = Inl (KeyError 1999)"
proof -
  let ?xs = "[(''AAA'', 2005), (''BCD'', 2011)] :: journal_year_pair list"
  let ?ys = "[(''DDD'', 2005), (''D'', 2011)] :: journal_year_pair list"
  have h: "map snd ?xs = map snd ?ys"
    by simp
  have r: "in_key_range 2005 \<and> in_key_range 2011"
    by (simp add: in_key_range_def)
  then have inr: "\<forall>r \<in> set ?xs. in_key_range (snd r)"
    by simp
  from label_independence [OF h] inr obtain t where
    t: "generateDictEfficient2_core ?xs = Inr t" "generateDictEfficient2_core ?ys = Inr t"
    by blast
  have "map_sum id (\<lambda>t. dict_getitem t 2011) (generateDictEfficient2_core ?xs) = Inr (Inr 1)"
    by code_simp
  with t(1) have v: "dict_getitem t 2011 = Inr 1"
    by simp
  from label_independence [OF h] obtain u where
    u: "generateDictInefficient_core ?xs = Inr u" "generateDictInefficient_core ?ys = Inr u"
    by blast
  let ?xs' = "[(''AAA'', 1999)] :: journal_year_pair list"
  let ?ys' = "[(''ZZZ'', 1999)] :: journal_year_pair list"
  have h': "map snd ?xs' = map snd ?ys'"
    by simp
  have n: "\<not> in_key_range 1999"
    by (simp add: in_key_range_def)
  then have out: "\<not> (\<forall>r \<in> set ?xs'. in_key_range (snd r))"
    by simp
  from label_independence [OF h'] out obtain y where
    y: "generateDictEfficientFor_core ?xs' = Inl (KeyError y)"
       "generateDictEfficientFor_core ?ys' = Inl (KeyError y)"
    by blast
  have "generateDictEfficientFor_core ?xs' = Inl (KeyError 1999)"
    by code_simp
  with y have k: "generateDictEfficientFor_core ?xs' = Inl (KeyError 1999)"
    "generateDictEfficientFor_core ?ys' = Inl (KeyError 1999)"
    by simp_all
  from h r t v u h' n k show ?thesis
    by blast
qed

text \<open>
  The claim as written says that every variant produces tables for any two such lists;
  with the year 2019 the single-pass variants produce none, for either label.
\<close>

theorem labels_differ_both_raise:
  "generateDictEfficientFor_core [(''AAA'', 2019)] = Inl (KeyError 2019)
   \<and> generateDictEfficientFor_core [(''ZZZ'', 2019)] = Inl (KeyError 2019)
   \<and> generateDictEfficient2_core [(''AAA'', 2019)] = generateDictEfficient2_core [(''ZZZ'', 2019)]"
  by code_simp

subsection \<open>One step of generateDictEfficient2\<close>

text \<open>
  C10. When the year of \<open>x\<close> is a key of \<open>yearDict\<close>, the step
  \<open>yearDict.update(getUpdateValue(x, yearDict))\<close> raises the value at that key by
  exactly 1 and leaves the value at every other key, and the keys themselves, as they
  were; of the 19 keys of the dictionary of \<open>generateDictEfficient2\<close>, 18 are other
  keys.
\<close>

theorem efficient2_step_frame:
  assumes "snd x \<in> set (dict_keys yearDict)"
  shows "\<exists>v d'. dict_getitem yearDict (snd x) = Inr v
           \<and> getUpdateValue x yearDict = Inr [(snd x, v + 1)]
           \<and> efficient2_step x yearDict = Inr d'
           \<and> dict_getitem d' (snd x) = Inr (v + 1)
           \<and> (\<forall>k. k \<noteq> snd x \<longrightarrow> dict_getitem d' k = dict_getitem yearDict k)
           \<and> dict_keys d' = dict_keys yearDict
           \<and> (distinct (dict_keys yearDict) \<and> length (dict_keys yearDict) = 19
                \<longrightarrow> length (removeAll (snd x) (dict_keys d')) = 18)"
proof -
  from assms have "map_of yearDict (snd x) \<noteq> None"
    by (simp add: map_of_eq_None_iff dict_keys_def)
  then obtain v where v: "map_of yearDict (snd x) = Some v"
    by blast
  let ?d = "dict_setitem yearDict (snd x) (v + 1)"
  have get: "dict_getitem yearDict (snd x) = Inr v"
    by (simp add: dict_getitem_def v)
  have upd: "getUpdateValue x yearDict = Inr [(snd x, v + 1)]"
    by (simp add: getUpdateValue_def get)
  have step: "efficient2_step x yearDict = Inr ?d"
    by (simp add: efficient2_step_def upd dict_update_single)
  have new: "dict_getitem ?d (snd x) = Inr (v + 1)"
    by (simp add: dict_getitem_def map_of_setitem)
  have frame: "\<forall>k. k \<noteq> snd x \<longrightarrow> dict_getitem ?d k = dict_getitem yearDict k"
    by (simp add: dict_getitem_def map_of_setitem)
  have keys: "dict_keys ?d = dict_keys yearDict"
    using assms by (rule keys_setitem)
  have "distinct (dict_keys yearDict) \<and> length (dict_keys yearDict) = 19
                \<longrightarrow> length (removeAll (snd x) (dict_keys ?d)) = 18"
    unfolding keys using assms by (simp add: others_count)
  with get upd step new frame keys show ?thesis by blast
qed

theorem efficient2_step_frame_witness:
  "2005 \<in> set (dict_keys init_yearDict)
   \<and> (\<exists>d'. efficient2_step (''AAA'', 2005) init_yearDict = Inr d'
         \<and> dict_getitem d' 2005 = Inr 1 \<and> dict_getitem d' 2006 = Inr 0
         \<and> length (removeAll 2005 (dict_keys d')) = 18)"
proof -
  have keys: "dict_keys init_yearDict = [2000..2018]"
    by (rule init_yearDict_keys)
  have h: "snd (''AAA'', 2005::int) \<in> set (dict_keys init_yearDict)"
    unfolding keys by simp
  have d: "distinct (dict_keys init_yearDict) \<and> length (dict_keys init_yearDict) = 19"
    unfolding keys by simp
  have g: "dict_getitem init_yearDict 2005 = Inr 0" "dict_getitem init_yearDict 2006 = Inr 0"
    by code_simp+
  from efficient2_step_frame [OF h] obtain v d' where s:
    "dict_getitem init_yearDict (snd (''AAA'', 2005::int)) = Inr v"
    "efficient2_step (''AAA'', 2005) init_yearDict = Inr d'"
    "dict_getitem d' (snd (''AAA'', 2005::int)) = Inr (v + 1)"
    "\<forall>k. k \<noteq> snd (''AAA'', 2005::int) \<longrightarrow> dict_getitem d' k = dict_getitem init_yearDict k"
    "distinct (dict_keys init_yearDict) \<and> length (dict_keys init_yearDict) = 19
       \<longrightarrow> length (removeAll (snd (''AAA'', 2005::int)) (dict_keys d')) = 18"
    by blast
  from s(1) g(1) have v: "v = 0" by simp
  from s(4) g(2) have "dict_getitem d' 2006 = Inr 0" by simp
  moreover from s(3) v have "dict_getitem d' 2005 = Inr 1" by simp
  moreover from s(5) d have "length (removeAll 2005 (dict_keys d')) = 18" by simp
  ultimately show ?thesis using s(2) h by auto
qed

end
